theory Spec2Isabelle
  imports Complex_Main
begin

section \<open>The board of minesweeper.py\<close>

text \<open>
  A shallow embedding of class \<open>MineSweeper\<close> (the data structure and the rules of the
  game) and of the flag toggle of \<open>MineSweeperGUI\<close>. A square is a pair of Python
  integers. The class keeps one set (or dictionary) per field for the whole board; the
  record below has the same fields under the same names (\<open>mines\<close> is \<open>self._mines\<close>).
\<close>

type_synonym coord = "int \<times> int"

text \<open>The exceptions the modelled code can raise.\<close>

datatype py_error = KeyError | ValueError | OverflowError | TypeError

text \<open>
  A value of \<open>self.mines_near\<close>: a number of mines, or the string \<open>'mine'\<close>.
\<close>

datatype near = Count int | MineTag

text \<open>
  What \<open>open\<close> reports to the player: \<open>Loss\<close> stands for the call \<open>self.lose()\<close>,
  \<open>Win\<close> for the call \<open>self.win()\<close>. Both methods only print a message.
\<close>

datatype event = Loss | Win

record board =
  columns :: int
  rows :: int
  xys :: "coord set"
  neighbours :: "coord \<rightharpoonup> coord set"
  mines :: "coord set"
  empty_remaining :: int
  opened :: "coord set"
  flagged :: "coord set"
  mines_near :: "coord \<rightharpoonup> near"

subsection \<open>Construction\<close>

text \<open>
  \<open>random.randrange(n)\<close> raises \<open>ValueError\<close> for \<open>n \<le> 0\<close> and returns some value of
  \<open>[0, n)\<close> otherwise. The random source is a finite list of raw draws, each reduced
  into the range; an exhausted list means that the computation has not come to an end
  with the draws it was given (\<open>None\<close>).
\<close>

definition randrange :: "int \<Rightarrow> int list \<Rightarrow> (py_error + int \<times> int list) option" where
  "randrange n rs =
     (if n \<le> 0 then Some (Inl ValueError)
      else case rs of [] \<Rightarrow> None | r # rs' \<Rightarrow> Some (Inr (r mod n, rs')))"

text \<open>
  The loop \<open>while len(self._mines) < mines_number: self._mines.add((randrange(columns),
  randrange(rows)))\<close>. A drawn square that is already a mine leaves the set as it is,
  and the loop draws again.
\<close>

function place_mines ::
  "int \<Rightarrow> int \<Rightarrow> int \<Rightarrow> coord set \<Rightarrow> int list \<Rightarrow> (py_error + coord set) option" where
  "place_mines cols rws mines_number ms rs =
     (if int (card ms) < mines_number then
        (case randrange cols rs of
           None \<Rightarrow> None
         | Some (Inl e) \<Rightarrow> Some (Inl e)
         | Some (Inr (x, rs1)) \<Rightarrow>
             (case randrange rws rs1 of
                None \<Rightarrow> None
              | Some (Inl e) \<Rightarrow> Some (Inl e)
              | Some (Inr (y, rs2)) \<Rightarrow>
                  place_mines cols rws mines_number (insert (x, y) ms) rs2))
      else Some (Inr ms))"
  by pat_completeness auto
termination
  by (relation "measure (\<lambda>(cols, rws, mines_number, ms, rs). length rs)")
     (auto simp: randrange_def split: if_splits list.splits)

declare place_mines.simps [simp del]

text \<open>
  \<open>int(x)\<close> truncates toward zero. In \<open>init\<close> the density is the rational number a
  Python float denotes and the two products are exact; \<open>init_float\<close> below rounds them
  as the program does.
\<close>

definition py_int :: "rat \<Rightarrow> int" where
  "py_int q = (if 0 \<le> q then \<lfloor>q\<rfloor> else \<lceil>q\<rceil>)"

definition mines_number_of :: "int \<Rightarrow> int \<Rightarrow> rat \<Rightarrow> int" where
  "mines_number_of cols rws mines_density = py_int (mines_density * of_int cols * of_int rws)"

text \<open>The whole board: \<open>set((x, y) for x in range(columns) for y in range(rows))\<close>.\<close>

definition board_xys :: "int \<Rightarrow> int \<Rightarrow> coord set" where
  "board_xys cols rws = set [(x, y). x \<leftarrow> [0..cols - 1], y \<leftarrow> [0..rws - 1]]"

text \<open>
  The dictionary \<open>self.neighbours\<close>: one entry for each square of the board, the 3x3
  area around it except the centre and the squares outside the board.
\<close>

definition board_neighbours :: "coord set \<Rightarrow> coord \<rightharpoonup> coord set" where
  "board_neighbours sqs =
     (\<lambda>(x, y). if (x, y) \<in> sqs
        then Some (set [(nx, ny). nx \<leftarrow> [x - 1, x, x + 1], ny \<leftarrow> [y - 1, y, y + 1],
                                  (nx, ny) \<noteq> (x, y), (nx, ny) \<in> sqs])
        else None)"

definition init :: "int \<Rightarrow> int \<Rightarrow> rat \<Rightarrow> int list \<Rightarrow> (py_error + board) option" where
  "init cols rws mines_density rs =
     (let mines_number = mines_number_of cols rws mines_density
      in case place_mines cols rws mines_number {} rs of
           None \<Rightarrow> None
         | Some (Inl e) \<Rightarrow> Some (Inl e)
         | Some (Inr ms) \<Rightarrow>
             Some (Inr \<lparr>columns = cols, rows = rws,
                        xys = board_xys cols rws,
                        neighbours = board_neighbours (board_xys cols rws),
                        mines = ms,
                        empty_remaining = cols * rws - mines_number,
                        opened = {}, flagged = {}, mines_near = Map.empty\<rparr>))"

subsection \<open>Construction in double precision\<close>

text \<open>
  The program computes \<open>int(mines_density * columns * rows)\<close> in floating point: each
  dimension is converted to a double, each product is rounded to the nearest double,
  and \<open>int\<close> truncates the result. A double is \<open>Fin m e\<close>, the number \<open>m * 2 ^ e\<close>,
  or an infinity, or not a number. The sign of a zero is not kept: it has no influence
  on the integer that \<open>int\<close> returns, nor on whether a product is a number.
\<close>

datatype pyfloat = Fin int int | PInf | NInf | NaN

definition fval :: "int \<Rightarrow> int \<Rightarrow> rat" where
  "fval m e = (if 0 \<le> e then of_int m * 2 ^ nat e else of_int m / 2 ^ nat (- e))"

text \<open>The number of binary digits of a positive integer.\<close>

function bits :: "int \<Rightarrow> int" where
  "bits a = (if a \<le> 0 then 0 else 1 + bits (a div 2))"
  by pat_completeness auto
termination
  by (relation "measure nat") auto

declare bits.simps [simp del]

text \<open>
  \<open>shift_right_even a s\<close> divides \<open>a\<close> by \<open>2 ^ s\<close> and rounds to the nearest
  integer, a tie to the even one.
\<close>

definition shift_right_even :: "int \<Rightarrow> nat \<Rightarrow> int" where
  "shift_right_even a s =
     (if s = 0 then a
      else
        let q = a div 2 ^ s; r = a mod 2 ^ s; h = 2 ^ (s - 1)
        in if h < r \<or> (r = h \<and> odd q) then q + 1 else q)"

text \<open>
  The double nearest to \<open>m * 2 ^ e\<close>: 53 binary digits, no exponent of the last digit
  below \<open>-1074\<close>, and an infinity when the rounded number reaches \<open>2 ^ 1024\<close>.
\<close>

definition round_double :: "int \<Rightarrow> int \<Rightarrow> pyfloat" where
  "round_double m e =
     (if m = 0 then Fin 0 0
      else
        let a = \<bar>m\<bar>;
            t = max (bits a + e - 53) (- 1074);
            n = (if t \<le> e then a * 2 ^ nat (e - t) else shift_right_even a (nat (t - e)))
        in if 1024 < bits n + t then (if 0 < m then PInf else NInf)
           else Fin (sgn m * n) t)"

text \<open>
  The conversion of a Python integer to a double raises \<open>OverflowError\<close> when the
  integer is too large.
\<close>

definition float_of_int :: "int \<Rightarrow> py_error + pyfloat" where
  "float_of_int i =
     (case round_double i 0 of
        PInf \<Rightarrow> Inl OverflowError
      | NInf \<Rightarrow> Inl OverflowError
      | x \<Rightarrow> Inr x)"

fun float_mul :: "pyfloat \<Rightarrow> pyfloat \<Rightarrow> pyfloat" where
  "float_mul NaN y = NaN"
| "float_mul x NaN = NaN"
| "float_mul (Fin m1 e1) (Fin m2 e2) = round_double (m1 * m2) (e1 + e2)"
| "float_mul (Fin m e) PInf = (if m = 0 then NaN else if 0 < m then PInf else NInf)"
| "float_mul (Fin m e) NInf = (if m = 0 then NaN else if 0 < m then NInf else PInf)"
| "float_mul PInf (Fin m e) = (if m = 0 then NaN else if 0 < m then PInf else NInf)"
| "float_mul NInf (Fin m e) = (if m = 0 then NaN else if 0 < m then NInf else PInf)"
| "float_mul PInf PInf = PInf"
| "float_mul PInf NInf = NInf"
| "float_mul NInf PInf = NInf"
| "float_mul NInf NInf = PInf"

text \<open>The product of a double and a Python integer.\<close>

definition times_int :: "pyfloat \<Rightarrow> int \<Rightarrow> py_error + pyfloat" where
  "times_int x i =
     (case float_of_int i of Inl err \<Rightarrow> Inl err | Inr y \<Rightarrow> Inr (float_mul x y))"

text \<open>
  \<open>int(x)\<close> of a double truncates toward zero; it raises \<open>ValueError\<close> for not a
  number and \<open>OverflowError\<close> for an infinity.
\<close>

definition int_of_float :: "pyfloat \<Rightarrow> py_error + int" where
  "int_of_float x =
     (case x of
        NaN \<Rightarrow> Inl ValueError
      | PInf \<Rightarrow> Inl OverflowError
      | NInf \<Rightarrow> Inl OverflowError
      | Fin m e \<Rightarrow>
          Inr (if 0 \<le> e then m * 2 ^ nat e
               else if 0 \<le> m then m div 2 ^ nat (- e)
               else - ((- m) div 2 ^ nat (- e))))"

text \<open>\<open>mines_density * columns * rows\<close>, from left to right.\<close>

definition density_product :: "pyfloat \<Rightarrow> int \<Rightarrow> int \<Rightarrow> py_error + pyfloat" where
  "density_product mines_density cols rws =
     (case times_int mines_density cols of
        Inl err \<Rightarrow> Inl err
      | Inr x \<Rightarrow> times_int x rws)"

definition mines_count :: "pyfloat \<Rightarrow> int \<Rightarrow> int \<Rightarrow> py_error + int" where
  "mines_count mines_density cols rws =
     (case density_product mines_density cols rws of
        Inl err \<Rightarrow> Inl err
      | Inr x \<Rightarrow> int_of_float x)"

text \<open>
  \<open>__init__\<close> with the number of mines computed as the program computes it, for a
  density that is a float, as the command line makes it. An exception of the
  arithmetic ends the construction. Where it returns a board, the board is one that
  \<open>init\<close> returns for a suitable rational density.
\<close>

definition init_float :: "int \<Rightarrow> int \<Rightarrow> pyfloat \<Rightarrow> int list \<Rightarrow> (py_error + board) option" where
  "init_float cols rws mines_density rs =
     (case mines_count mines_density cols rws of
        Inl err \<Rightarrow> Some (Inl err)
      | Inr mines_number \<Rightarrow>
          (case place_mines cols rws mines_number {} rs of
             None \<Rightarrow> None
           | Some (Inl e) \<Rightarrow> Some (Inl e)
           | Some (Inr ms) \<Rightarrow>
               Some (Inr \<lparr>columns = cols, rows = rws,
                          xys = board_xys cols rws,
                          neighbours = board_neighbours (board_xys cols rws),
                          mines = ms,
                          empty_remaining = cols * rws - mines_number,
                          opened = {}, flagged = {}, mines_near = Map.empty\<rparr>)))"

subsection \<open>The operations\<close>

definition flag :: "board \<Rightarrow> coord \<Rightarrow> board" where
  "flag b xy = b\<lparr>flagged := insert xy (flagged b)\<rparr>"

text \<open>
  \<open>open\<close> returns the board it leaves behind together with its outcome: the exception
  it raised, or the event it reported. The square is added to \<open>opened\<close> before anything
  else is looked at, so the board of an exception is not the board of the call.
\<close>

definition open_cell :: "board \<Rightarrow> coord \<Rightarrow> board \<times> (py_error + event option)" where
  "open_cell b xy =
     (if xy \<in> opened b then (b, Inr None)
      else
        let b1 = b\<lparr>opened := insert xy (opened b)\<rparr> in
        if xy \<in> mines b1 then
          let b2 = b1\<lparr>mines_near := (mines_near b1)(xy \<mapsto> MineTag)\<rparr>;
              b3 = flag b2 xy
          in (b3, Inr (Some Loss))
        else
          case neighbours b1 xy of
            None \<Rightarrow> (b1, Inl KeyError)
          | Some ns \<Rightarrow>
              let b2 = b1\<lparr>mines_near := (mines_near b1)(xy \<mapsto> Count (int (card (ns \<inter> mines b1))))\<rparr>;
                  b3 = b2\<lparr>flagged := flagged b2 - {xy}\<rparr>;
                  b4 = b3\<lparr>empty_remaining := empty_remaining b3 - 1\<rparr>
              in if empty_remaining b4 \<le> 0 then (b4, Inr (Some Win)) else (b4, Inr None))"

text \<open>
  The statement \<open>self.flagged.remove(xy)\<close>, the only removal of a flag outside \<open>open\<close>.
  \<open>set.remove\<close> raises \<open>KeyError\<close> for an absent element; the source runs the
  statement in one place, the right-click handler, and there only for a flagged square.
\<close>

definition flagged_remove :: "board \<Rightarrow> coord \<Rightarrow> board \<times> (py_error + event option)" where
  "flagged_remove b xy =
     (if xy \<in> flagged b then (b\<lparr>flagged := flagged b - {xy}\<rparr>, Inr None)
      else (b, Inl KeyError))"

text \<open>
  \<open>MineSweeperGUI.refresh\<close> redraws the button of a square. The buttons are not part
  of the board; what matters here is where the method raises. It starts with
  \<open>self.squares[xy]\<close>, a dictionary with one button for each square of \<open>self.xys\<close>, and
  for an opened square without a mine \<open>text_fg_bg\<close> reads \<open>self.mines_near[xy]\<close> and
  compares the value with \<open>0\<close>, which raises \<open>TypeError\<close> for the string \<open>'mine'\<close>.
\<close>

definition refresh :: "board \<Rightarrow> coord \<Rightarrow> py_error + event option" where
  "refresh b xy =
     (if xy \<notin> xys b then Inl KeyError
      else if xy \<in> opened b \<and> xy \<notin> mines b then
        (case mines_near b xy of
           None \<Rightarrow> Inl KeyError
         | Some MineTag \<Rightarrow> Inl TypeError
         | Some (Count mn) \<Rightarrow> Inr None)
      else Inr None)"

text \<open>
  The handler \<open>right_clicked\<close> of \<open>MineSweeperGUI\<close>. On a square that is not flagged
  it calls \<open>self.flag(xy)\<close>, which in this class is the \<open>flag\<close> of the board followed
  by \<open>refresh\<close>; it keeps the flag of an opened mine; it removes any other flag and
  refreshes the button.
\<close>

definition right_clicked :: "board \<Rightarrow> coord \<Rightarrow> board \<times> (py_error + event option)" where
  "right_clicked b xy =
     (if xy \<notin> flagged b then (flag b xy, refresh (flag b xy) xy)
      else if xy \<in> opened b \<and> xy \<in> mines b then (b, Inr None)
      else
        (case flagged_remove b xy of
           (b1, Inl e) \<Rightarrow> (b1, Inl e)
         | (b1, Inr _) \<Rightarrow> (b1, refresh b1 xy)))"

text \<open>The reads of the public fields; \<open>self.mines_near[xy]\<close> raises for a missing key.\<close>

definition is_opened :: "board \<Rightarrow> coord \<Rightarrow> bool" where
  "is_opened b xy = (xy \<in> opened b)"

definition is_flagged :: "board \<Rightarrow> coord \<Rightarrow> bool" where
  "is_flagged b xy = (xy \<in> flagged b)"

definition mines_near_of :: "board \<Rightarrow> coord \<Rightarrow> py_error + near" where
  "mines_near_of b xy = (case mines_near b xy of None \<Rightarrow> Inl KeyError | Some v \<Rightarrow> Inr v)"

subsection \<open>Games\<close>

text \<open>
  A game is a list of calls: \<open>open\<close> and \<open>flag\<close> of class \<open>MineSweeper\<close>, and the
  right click of the window. A caller that catches an exception goes on with the board
  the failed call left behind. The window class follows \<open>open\<close> and \<open>flag\<close> by a
  \<open>refresh\<close>, which writes no field of the board.
\<close>

datatype op = Open coord | Flag coord | RightClicked coord

fun op_xy :: "op \<Rightarrow> coord" where
  "op_xy (Open xy) = xy"
| "op_xy (Flag xy) = xy"
| "op_xy (RightClicked xy) = xy"

fun step :: "board \<Rightarrow> op \<Rightarrow> board \<times> (py_error + event option)" where
  "step b (Open xy) = open_cell b xy"
| "step b (Flag xy) = (flag b xy, Inr None)"
| "step b (RightClicked xy) = right_clicked b xy"

fun run :: "board \<Rightarrow> op list \<Rightarrow> board" where
  "run b [] = b"
| "run b (p # ps) = run (fst (step b p)) ps"

fun trace :: "board \<Rightarrow> op list \<Rightarrow> (py_error + event option) list" where
  "trace b [] = []"
| "trace b (p # ps) = snd (step b p) # trace (fst (step b p)) ps"

text \<open>The squares without a mine, and the distance of the neighbourhood.\<close>

definition safe :: "board \<Rightarrow> coord set" where
  "safe b = xys b - mines b"

definition chebyshev :: "coord \<Rightarrow> coord \<Rightarrow> int" where
  "chebyshev p q = max \<bar>fst p - fst q\<bar> \<bar>snd p - snd q\<bar>"

text \<open>
  A list of draws that visits the given squares in order: two draws for each square,
  the column first.
\<close>

fun draws_for :: "coord list \<Rightarrow> int list" where
  "draws_for [] = []"
| "draws_for ((x, y) # ps) = x # y # draws_for ps"

text \<open>
  What construction fixes for the whole game, together with the one fact about the
  player's fields that no call can break.
\<close>

definition board_ok :: "board \<Rightarrow> bool" where
  "board_ok b \<longleftrightarrow>
     xys b = board_xys (columns b) (rows b) \<and>
     neighbours b = board_neighbours (xys b) \<and>
     finite (mines b) \<and> mines b \<subseteq> xys b \<and>
     dom (mines_near b) \<subseteq> opened b"

text \<open>The state of a game whose calls all named squares of the board.\<close>

definition state_inv :: "board \<Rightarrow> bool" where
  "state_inv b \<longleftrightarrow>
     opened b \<subseteq> xys b \<and> flagged b \<subseteq> xys b \<and> dom (mines_near b) = opened b"

definition counts_safe :: "board \<Rightarrow> bool" where
  "counts_safe b \<longleftrightarrow> empty_remaining b = int (card (safe b - opened b))"

text \<open>
  A board of two squares for the examples: the first draw puts the only mine on the
  square \<open>(1, 0)\<close>.
\<close>

definition demo_board :: board where
  "demo_board =
     \<lparr>columns = 2, rows = 1, xys = board_xys 2 1,
      neighbours = board_neighbours (board_xys 2 1),
      mines = {(1, 0)}, empty_remaining = 1,
      opened = {}, flagged = {}, mines_near = Map.empty\<rparr>"

text \<open>The board of four squares in a row without a mine.\<close>

definition board_4x1 :: board where
  "board_4x1 =
     \<lparr>columns = 4, rows = 1, xys = board_xys 4 1,
      neighbours = board_neighbours (board_xys 4 1),
      mines = {}, empty_remaining = 4,
      opened = {}, flagged = {}, mines_near = Map.empty\<rparr>"

text \<open>The board of three by three squares with its only mine in the middle.\<close>

definition board_3x3 :: board where
  "board_3x3 =
     \<lparr>columns = 3, rows = 3, xys = board_xys 3 3,
      neighbours = board_neighbours (board_xys 3 3),
      mines = {(1, 1)}, empty_remaining = 8,
      opened = {}, flagged = {}, mines_near = Map.empty\<rparr>"

text \<open>The squares of the board in the order of the two loops of its construction.\<close>

definition all_squares :: "int \<Rightarrow> int \<Rightarrow> coord list" where
  "all_squares cols rws = [(x, y). x \<leftarrow> [0..cols - 1], y \<leftarrow> [0..rws - 1]]"

text \<open>The board of one square that is a mine, and the board without a square.\<close>

definition board_1x1 :: board where
  "board_1x1 =
     \<lparr>columns = 1, rows = 1, xys = board_xys 1 1,
      neighbours = board_neighbours (board_xys 1 1),
      mines = {(0, 0)}, empty_remaining = 0,
      opened = {}, flagged = {}, mines_near = Map.empty\<rparr>"

definition board_0x3 :: board where
  "board_0x3 =
     \<lparr>columns = 0, rows = 3, xys = board_xys 0 3,
      neighbours = board_neighbours (board_xys 0 3),
      mines = {}, empty_remaining = 0,
      opened = {}, flagged = {}, mines_near = Map.empty\<rparr>"

text \<open>A double that is not below zero.\<close>

fun nonneg_float :: "pyfloat \<Rightarrow> bool" where
  "nonneg_float (Fin m e) = (0 \<le> m)"
| "nonneg_float PInf = True"
| "nonneg_float NInf = False"
| "nonneg_float NaN = True"

text \<open>
  The board of ten squares in a row that the draws \<open>0, 0, 1, 0, 2, 0\<close> give at
  density \<open>0.3\<close>, the double \<open>5404319552844595 * 2 ^ -54\<close>.
\<close>

definition board_10x1 :: board where
  "board_10x1 =
     \<lparr>columns = 10, rows = 1, xys = board_xys 10 1,
      neighbours = board_neighbours (board_xys 10 1),
      mines = {(0, 0), (1, 0), (2, 0)}, empty_remaining = 7,
      opened = {}, flagged = {}, mines_near = Map.empty\<rparr>"

text \<open>
  The board of three squares in a row with a mine on the first, built at the double
  nearest to one third, \<open>6004799503160661 * 2 ^ -54\<close>.
\<close>

definition board_3x1 :: board where
  "board_3x1 =
     \<lparr>columns = 3, rows = 1, xys = board_xys 3 1,
      neighbours = board_neighbours (board_xys 3 1),
      mines = {(0, 0)}, empty_remaining = 2,
      opened = {}, flagged = {}, mines_near = Map.empty\<rparr>"



section \<open>The geometry of the board\<close>

lemma mem_board_xys: "(x, y) \<in> board_xys c r \<longleftrightarrow> 0 \<le> x \<and> x < c \<and> 0 \<le> y \<and> y < r"
  by (auto simp: board_xys_def image_iff)

lemma board_xys_Times: "board_xys c r = {0..<c} \<times> {0..<r}"
  by (auto simp: mem_board_xys)

lemma finite_board_xys: "finite (board_xys c r)"
  by (simp add: board_xys_Times)

lemma card_board_xys: "0 \<le> c \<Longrightarrow> 0 \<le> r \<Longrightarrow> int (card (board_xys c r)) = c * r"
  by (simp add: board_xys_Times nat_mult_distrib)

lemma chebyshev_one:
  "chebyshev (nx, ny) (x, y) = 1 \<longleftrightarrow>
     (nx = x - 1 \<or> nx = x \<or> nx = x + 1) \<and> (ny = y - 1 \<or> ny = y \<or> ny = y + 1) \<and>
     (nx, ny) \<noteq> (x, y)"
  unfolding chebyshev_def by (simp add: max_def abs_if) arith

lemma mem_neighbour_list:
  "p \<in> set [(nx, ny). nx \<leftarrow> [x - 1, x, x + 1], ny \<leftarrow> [y - 1, y, y + 1],
                       (nx, ny) \<noteq> (x, y), (nx, ny) \<in> sqs]
   \<longleftrightarrow> p \<in> sqs \<and> chebyshev p (x, y) = 1"
proof (cases p)
  case (Pair nx ny)
  show ?thesis unfolding Pair chebyshev_one
    apply simp
    apply (rule iffI)
     apply (elim disjE conjE; simp)
    apply (elim disjE conjE; simp)
    done
qed

lemma board_neighbours_Some:
  assumes "(x, y) \<in> sqs"
  shows "board_neighbours sqs (x, y) = Some {p \<in> sqs. chebyshev p (x, y) = 1}"
proof -
  let ?ns = "set [(nx, ny). nx \<leftarrow> [x - 1, x, x + 1], ny \<leftarrow> [y - 1, y, y + 1],
                            (nx, ny) \<noteq> (x, y), (nx, ny) \<in> sqs]"
  from assms have "board_neighbours sqs (x, y) = Some ?ns"
    unfolding board_neighbours_def by (simp only: prod.case if_True)
  also have "?ns = {p \<in> sqs. chebyshev p (x, y) = 1}"
    using mem_neighbour_list[of _ x y sqs] by blast
  finally show ?thesis .
qed

lemma board_neighbours_None: "xy \<notin> sqs \<Longrightarrow> board_neighbours sqs xy = None"
  by (cases xy) (simp add: board_neighbours_def)

section \<open>Placing the mines\<close>

lemma place_mines_done: "\<not> int (card ms) < n \<Longrightarrow> place_mines c r n ms rs = Some (Inr ms)"
  by (simp add: place_mines.simps)

lemma place_mines_draw:
  "int (card ms) < n \<Longrightarrow> 0 < c \<Longrightarrow> 0 < r \<Longrightarrow>
   place_mines c r n ms (a # b # rs) = place_mines c r n (insert (a mod c, b mod r) ms) rs"
  by (subst place_mines.simps) (simp add: randrange_def)

lemma place_mines_starved:
  "int (card ms) < n \<Longrightarrow> 0 < c \<Longrightarrow> 0 < r \<Longrightarrow> length rs < 2 \<Longrightarrow>
   place_mines c r n ms rs = None"
  by (subst place_mines.simps) (cases rs; cases "tl rs"; simp add: randrange_def)

lemma place_mines_columns_error:
  "int (card ms) < n \<Longrightarrow> c \<le> 0 \<Longrightarrow> place_mines c r n ms rs = Some (Inl ValueError)"
  by (subst place_mines.simps) (simp add: randrange_def)

lemma place_mines_rows_error:
  "int (card ms) < n \<Longrightarrow> 0 < c \<Longrightarrow> r \<le> 0 \<Longrightarrow>
   place_mines c r n ms rs = (if rs = [] then None else Some (Inl ValueError))"
  by (subst place_mines.simps) (cases rs; simp add: randrange_def)

lemma place_mines_pos:
  assumes "0 < c" "0 < r"
  shows "finite ms \<Longrightarrow> ms \<subseteq> board_xys c r \<Longrightarrow> int (card ms) \<le> n \<Longrightarrow>
         place_mines c r n ms rs = Some res \<Longrightarrow>
         (\<exists>ms'. res = Inr ms' \<and> finite ms' \<and> ms \<subseteq> ms' \<and> ms' \<subseteq> board_xys c r \<and>
                int (card ms') = n)"
proof (induction rs arbitrary: ms rule: induct_list012)
  case 1
  then show ?case
    using assms by (cases "int (card ms) < n") (auto simp: place_mines_starved place_mines_done)
next
  case (2 a)
  then show ?case
    using assms by (cases "int (card ms) < n") (auto simp: place_mines_starved place_mines_done)
next
  case (3 a b rs)
  show ?case
  proof (cases "int (card ms) < n")
    case False
    with 3 show ?thesis by (simp add: place_mines_done)
  next
    case True
    let ?p = "(a mod c, b mod r)"
    have inb: "?p \<in> board_xys c r"
      using assms by (simp add: mem_board_xys)
    have "card (insert ?p ms) \<le> Suc (card ms)"
      by (rule card_insert_le_m1) simp_all
    with True have le: "int (card (insert ?p ms)) \<le> n" by linarith
    from "3.prems"(4) True assms
    have "place_mines c r n (insert ?p ms) rs = Some res"
      by (simp add: place_mines_draw)
    from "3.IH"(1)[OF _ _ le this] "3.prems"(1,2) inb
    show ?thesis by auto
  qed
qed

lemma place_mines_empty_Inr:
  assumes "place_mines c r n {} rs = Some (Inr ms')"
  shows "finite ms' \<and> ms' \<subseteq> board_xys c r \<and> int (card ms') = max 0 n"
proof (cases "0 < n")
  case False
  with assms show ?thesis by (simp add: place_mines_done)
next
  case True
  then have lt: "int (card ({} :: coord set)) < n" by simp
  have c: "0 < c"
  proof (rule ccontr)
    assume "\<not> 0 < c"
    with place_mines_columns_error[OF lt, of c r rs] assms show False by simp
  qed
  have r: "0 < r"
  proof (rule ccontr)
    assume "\<not> 0 < r"
    with place_mines_rows_error[OF lt c, of r rs] assms show False by (simp split: if_splits)
  qed
  from place_mines_pos[OF c r _ _ _ assms] True show ?thesis by auto
qed

lemma place_mines_empty_Inl:
  assumes "place_mines c r n {} rs = Some (Inl e)"
  shows "e = ValueError \<and> 0 < n \<and> (c \<le> 0 \<or> r \<le> 0)"
proof -
  have n: "0 < n"
    using assms by (cases "0 < n") (simp_all add: place_mines_done)
  then have lt: "int (card ({} :: coord set)) < n" by simp
  show ?thesis
  proof (cases "0 < c \<and> 0 < r")
    case True
    with place_mines_pos[of c r "{}" n rs "Inl e"] assms n show ?thesis by auto
  next
    case False
    then consider "c \<le> 0" | "0 < c" "r \<le> 0" by linarith
    then show ?thesis
    proof cases
      case 1
      with place_mines_columns_error[OF lt 1, of r rs] assms n show ?thesis by simp
    next
      case 2
      with place_mines_rows_error[OF lt 2, of rs] assms n show ?thesis
        by (simp split: if_splits)
    qed
  qed
qed

lemma place_mines_enough:
  assumes "0 < c" "0 < r"
  shows "finite ms \<Longrightarrow> set ps \<subseteq> board_xys c r \<Longrightarrow> n \<le> int (card (ms \<union> set ps)) \<Longrightarrow>
         \<exists>ms'. place_mines c r n ms (draws_for ps) = Some (Inr ms')"
proof (induction ps arbitrary: ms)
  case Nil
  then show ?case by (simp add: place_mines_done)
next
  case (Cons p ps)
  obtain x y where p: "p = (x, y)" by (cases p)
  show ?case
  proof (cases "int (card ms) < n")
    case False
    then show ?thesis by (simp add: place_mines_done)
  next
    case True
    from Cons.prems(2) p have "0 \<le> x" "x < c" "0 \<le> y" "y < r"
      by (simp_all add: mem_board_xys)
    then have m: "x mod c = x" "y mod r = y" by simp_all
    have "insert (x, y) ms \<union> set ps = ms \<union> set (p # ps)" using p by auto
    with Cons.prems have "n \<le> int (card (insert (x, y) ms \<union> set ps))" by simp
    from Cons.IH[OF _ _ this] Cons.prems
    obtain ms' where "place_mines c r n (insert (x, y) ms) (draws_for ps) = Some (Inr ms')"
      by auto
    with True assms m p show ?thesis by (simp add: place_mines_draw)
  qed
qed

section \<open>The constructed board\<close>

lemma init_Inr:
  assumes "init c r d rs = Some (Inr b)"
  shows "columns b = c" "rows b = r" "xys b = board_xys c r"
    "neighbours b = board_neighbours (board_xys c r)"
    "empty_remaining b = c * r - mines_number_of c r d"
    "opened b = {}" "flagged b = {}" "mines_near b = Map.empty"
    "place_mines c r (mines_number_of c r d) {} rs = Some (Inr (mines b))"
  using assms by (auto simp: init_def Let_def split: option.splits sum.splits)

lemma init_board_ok: "init c r d rs = Some (Inr b) \<Longrightarrow> board_ok b"
  using place_mines_empty_Inr[of c r "mines_number_of c r d" rs "mines b"]
  by (simp add: board_ok_def init_Inr)

lemma init_state_inv: "init c r d rs = Some (Inr b) \<Longrightarrow> state_inv b"
  by (simp add: state_inv_def init_Inr)

lemma mines_number_nonneg: "0 \<le> c \<Longrightarrow> 0 \<le> r \<Longrightarrow> 0 \<le> d \<Longrightarrow> 0 \<le> mines_number_of c r d"
  by (simp add: mines_number_of_def py_int_def)

lemma mines_number_less:
  assumes "0 < c" "0 < r" "d < 1"
  shows "mines_number_of c r d < c * r"
proof -
  let ?q = "d * of_int c * of_int r"
  have "?q < 1 * of_int c * of_int r"
    using assms by (intro mult_strict_right_mono) simp_all
  then have lt: "?q < of_int (c * r)" by simp
  have pos: "0 < c * r" using assms by simp
  show ?thesis
  proof (cases "0 \<le> ?q")
    case True
    with lt show ?thesis
      unfolding mines_number_of_def py_int_def by (simp add: floor_less_iff)
  next
    case False
    then have "\<lceil>?q\<rceil> \<le> 0" by (simp add: ceiling_le_iff)
    moreover have "py_int ?q = \<lceil>?q\<rceil>" using False by (simp add: py_int_def)
    ultimately show ?thesis
      unfolding mines_number_of_def using pos by linarith
  qed
qed

lemma init_counts_safe:
  assumes "init c r d rs = Some (Inr b)" "0 \<le> c" "0 \<le> r" "0 \<le> d"
  shows "counts_safe b"
proof -
  let ?n = "mines_number_of c r d"
  from place_mines_empty_Inr[OF init_Inr(9)[OF assms(1)]] mines_number_nonneg[OF assms(2-4)]
  have m: "finite (mines b)" "mines b \<subseteq> board_xys c r" "int (card (mines b)) = ?n" by auto
  have "card (board_xys c r - mines b) = card (board_xys c r) - card (mines b)"
    using m by (simp add: card_Diff_subset)
  moreover have "card (mines b) \<le> card (board_xys c r)"
    using m by (simp add: card_mono finite_board_xys)
  ultimately have "int (card (board_xys c r - mines b)) = c * r - ?n"
    using card_board_xys[OF assms(2,3)] m(3) by linarith
  then show ?thesis
    by (simp add: counts_safe_def safe_def init_Inr[OF assms(1)])
qed

section \<open>One call\<close>

lemma open_cell_opened: "xy \<in> opened b \<Longrightarrow> open_cell b xy = (b, Inr None)"
  by (simp add: open_cell_def)

lemma open_cell_mine:
  "xy \<notin> opened b \<Longrightarrow> xy \<in> mines b \<Longrightarrow>
   open_cell b xy =
     (b\<lparr>opened := insert xy (opened b), mines_near := (mines_near b)(xy \<mapsto> MineTag),
        flagged := insert xy (flagged b)\<rparr>, Inr (Some Loss))"
  by (simp add: open_cell_def flag_def)

lemma open_cell_no_key:
  "xy \<notin> opened b \<Longrightarrow> xy \<notin> mines b \<Longrightarrow> neighbours b xy = None \<Longrightarrow>
   open_cell b xy = (b\<lparr>opened := insert xy (opened b)\<rparr>, Inl KeyError)"
  by (simp add: open_cell_def)

lemma open_cell_safe:
  "xy \<notin> opened b \<Longrightarrow> xy \<notin> mines b \<Longrightarrow> neighbours b xy = Some ns \<Longrightarrow>
   open_cell b xy =
     (b\<lparr>opened := insert xy (opened b),
        mines_near := (mines_near b)(xy \<mapsto> Count (int (card (ns \<inter> mines b)))),
        flagged := flagged b - {xy},
        empty_remaining := empty_remaining b - 1\<rparr>,
      if empty_remaining b - 1 \<le> 0 then Inr (Some Win) else Inr None)"
  by (simp add: open_cell_def)

lemma open_cell_cases:
  obtains (opened) "xy \<in> opened (b::board)"
  | (mine) "xy \<notin> opened b" "xy \<in> mines b"
  | (no_key) "xy \<notin> opened b" "xy \<notin> mines b" "neighbours b xy = None"
  | (safe) ns where "xy \<notin> opened b" "xy \<notin> mines b" "neighbours b xy = Some ns"
  by (cases "neighbours b xy") auto

lemma open_cell_static:
  "columns (fst (open_cell b xy)) = columns b"
  "rows (fst (open_cell b xy)) = rows b"
  "xys (fst (open_cell b xy)) = xys b"
  "neighbours (fst (open_cell b xy)) = neighbours b"
  "mines (fst (open_cell b xy)) = mines b"
  by (cases xy b rule: open_cell_cases;
      simp add: open_cell_opened open_cell_mine open_cell_no_key open_cell_safe)+

lemma step_static:
  "columns (fst (step b p)) = columns b"
  "rows (fst (step b p)) = rows b"
  "xys (fst (step b p)) = xys b"
  "neighbours (fst (step b p)) = neighbours b"
  "mines (fst (step b p)) = mines b"
  by (cases p; simp add: open_cell_static flag_def flagged_remove_def right_clicked_def)+

lemma run_static:
  "columns (run b ps) = columns b"
  "rows (run b ps) = rows b"
  "xys (run b ps) = xys b"
  "neighbours (run b ps) = neighbours b"
  "mines (run b ps) = mines b"
  by (induction ps arbitrary: b; simp add: step_static)+

lemma safe_step: "safe (fst (step b p)) = safe b"
  by (simp add: safe_def step_static)

lemma safe_run: "safe (run b ps) = safe b"
  by (simp add: safe_def run_static)

lemma open_cell_opened_mono: "opened b \<subseteq> opened (fst (open_cell b xy))"
  by (cases xy b rule: open_cell_cases;
      auto simp add: open_cell_opened open_cell_mine open_cell_no_key open_cell_safe)

lemma step_opened_mono: "opened b \<subseteq> opened (fst (step b p))"
  using open_cell_opened_mono
  by (cases p; simp add: flag_def flagged_remove_def right_clicked_def)

lemma step_board_ok: "board_ok b \<Longrightarrow> board_ok (fst (step b p))"
proof -
  assume ok: "board_ok b"
  have "dom (mines_near (fst (step b p))) \<subseteq> opened (fst (step b p))"
  proof (cases p)
    case (Open xy)
    show ?thesis using ok unfolding Open
      by (cases xy b rule: open_cell_cases;
          auto simp add: board_ok_def open_cell_opened open_cell_mine open_cell_no_key open_cell_safe)
  qed (use ok in \<open>auto simp: board_ok_def flag_def flagged_remove_def right_clicked_def\<close>)
  with ok show ?thesis unfolding board_ok_def step_static by blast
qed

lemma run_board_ok: "board_ok b \<Longrightarrow> board_ok (run b ps)"
  by (induction ps arbitrary: b) (simp_all add: step_board_ok)

lemma step_mines_near_kept:
  assumes "board_ok b" "mines_near b xy = Some v"
  shows "mines_near (fst (step b p)) xy = Some v"
proof (cases p)
  case (Open q)
  from assms have "xy \<in> opened b" by (auto simp: board_ok_def)
  then show ?thesis using assms(2) unfolding Open
    by (cases q b rule: open_cell_cases;
        auto simp add: open_cell_opened open_cell_mine open_cell_no_key open_cell_safe)
qed (use assms in \<open>auto simp: flag_def flagged_remove_def right_clicked_def\<close>)

lemma step_state_inv:
  assumes "board_ok b" "state_inv b" "op_xy p \<in> xys b"
  shows "state_inv (fst (step b p))"
proof (cases p)
  case (Open xy)
  with assms(3) have xy: "xy \<in> xys b" by simp
  with assms(1) have "neighbours b xy \<noteq> None"
    by (cases xy) (simp add: board_ok_def board_neighbours_Some)
  then show ?thesis using assms(2) xy unfolding Open
    by (cases xy b rule: open_cell_cases;
        auto simp add: state_inv_def open_cell_opened open_cell_mine open_cell_no_key open_cell_safe)
qed (use assms in \<open>auto simp: state_inv_def flag_def flagged_remove_def right_clicked_def\<close>)

section \<open>Counting the squares left\<close>

lemma in_bounds_neighbours:
  assumes "board_ok b" "xy \<in> xys b"
  shows "neighbours b xy = Some {p \<in> xys b. chebyshev p xy = 1}"
  using assms by (cases xy) (simp add: board_ok_def board_neighbours_Some)

lemma finite_safe: "board_ok b \<Longrightarrow> finite (safe b - opened b)"
  by (simp add: board_ok_def safe_def finite_board_xys)

lemma no_key_outside:
  assumes "board_ok b" "neighbours b xy = None"
  shows "xy \<notin> xys b"
  using assms in_bounds_neighbours[OF assms(1), of xy] by auto

lemma open_cell_counts_safe:
  assumes "board_ok b" "counts_safe b"
  shows "counts_safe (fst (open_cell b xy))"
proof (cases xy b rule: open_cell_cases)
  case opened
  with assms(2) show ?thesis by (simp add: open_cell_opened)
next
  case mine
  then have "safe b - insert xy (opened b) = safe b - opened b"
    by (auto simp: safe_def)
  with assms(2) mine show ?thesis
    by (simp add: open_cell_mine counts_safe_def safe_def)
next
  case no_key
  with no_key_outside[OF assms(1)] have "safe b - insert xy (opened b) = safe b - opened b"
    by (auto simp: safe_def)
  with assms(2) no_key show ?thesis
    by (simp add: open_cell_no_key counts_safe_def safe_def)
next
  case (safe ns)
  then have "xy \<in> xys b"
    using board_neighbours_None[of xy "xys b"] assms(1) by (auto simp: board_ok_def)
  with safe have mem: "xy \<in> safe b - opened b"
    by (simp add: safe_def)
  have eq: "safe b - insert xy (opened b) = (safe b - opened b) - {xy}" by auto
  from card_Suc_Diff1[OF finite_safe[OF assms(1)] mem]
  have "int (card (safe b - insert xy (opened b))) = int (card (safe b - opened b)) - 1"
    unfolding eq by linarith
  with assms(2) safe show ?thesis
    by (simp add: open_cell_safe counts_safe_def safe_def)
qed

lemma step_counts_safe:
  assumes "board_ok b" "counts_safe b"
  shows "counts_safe (fst (step b p))"
proof (cases p)
  case (Open xy)
  with assms open_cell_counts_safe show ?thesis by simp
qed (use assms in \<open>auto simp: counts_safe_def safe_def flag_def flagged_remove_def right_clicked_def\<close>)

lemma counts_safe_zero:
  assumes "board_ok b" "counts_safe b"
  shows "empty_remaining b \<le> 0 \<longleftrightarrow> safe b \<subseteq> opened b"
proof -
  have "empty_remaining b \<le> 0 \<longleftrightarrow> card (safe b - opened b) = 0"
    using assms(2) by (simp add: counts_safe_def)
  also have "\<dots> \<longleftrightarrow> safe b - opened b = {}"
    using finite_safe[OF assms(1)] by simp
  also have "\<dots> \<longleftrightarrow> safe b \<subseteq> opened b" by auto
  finally show ?thesis .
qed

lemma open_cell_win:
  assumes "board_ok b" "counts_safe b"
  shows "snd (open_cell b xy) = Inr (Some Win) \<longleftrightarrow>
         \<not> safe b \<subseteq> opened b \<and> safe b \<subseteq> opened (fst (open_cell b xy))"
proof (cases xy b rule: open_cell_cases)
  case opened
  then show ?thesis by (simp add: open_cell_opened)
next
  case mine
  then have "safe b \<subseteq> insert xy (opened b) \<longleftrightarrow> safe b \<subseteq> opened b"
    by (auto simp: safe_def)
  with mine show ?thesis by (simp add: open_cell_mine)
next
  case no_key
  with no_key_outside[OF assms(1)] have "safe b \<subseteq> insert xy (opened b) \<longleftrightarrow> safe b \<subseteq> opened b"
    by (auto simp: safe_def)
  with no_key show ?thesis by (simp add: open_cell_no_key)
next
  case (safe ns)
  then have inb: "xy \<in> xys b"
    using board_neighbours_None[of xy "xys b"] assms(1) by (auto simp: board_ok_def)
  let ?b' = "fst (open_cell b xy)"
  have ok': "board_ok ?b'" using step_board_ok[OF assms(1), of "Open xy"] by simp
  have cs': "counts_safe ?b'" by (rule open_cell_counts_safe[OF assms])
  have s': "safe ?b' = safe b" using safe_step[of b "Open xy"] by simp
  have er': "empty_remaining ?b' = empty_remaining b - 1"
    using safe by (simp add: open_cell_safe)
  from safe inb have "xy \<in> safe b" "xy \<notin> opened b" by (simp_all add: safe_def)
  then have nb: "\<not> safe b \<subseteq> opened b" by auto
  have "snd (open_cell b xy) = Inr (Some Win) \<longleftrightarrow> empty_remaining b - 1 \<le> 0"
    using safe by (simp add: open_cell_safe)
  also have "\<dots> \<longleftrightarrow> safe b \<subseteq> opened ?b'"
    using counts_safe_zero[OF ok' cs'] by (simp add: er' s')
  finally show ?thesis using nb by simp
qed

lemma refresh_no_event: "refresh b xy \<noteq> Inr (Some ev)"
  by (simp add: refresh_def split: option.splits near.splits)

lemma right_clicked_no_event: "snd (right_clicked b xy) \<noteq> Inr (Some ev)"
  by (simp add: right_clicked_def flagged_remove_def refresh_no_event)

lemma right_clicked_opened: "opened (fst (right_clicked b xy)) = opened b"
  by (simp add: right_clicked_def flagged_remove_def flag_def)

lemma step_win:
  assumes "board_ok b" "counts_safe b"
  shows "snd (step b p) = Inr (Some Win) \<longleftrightarrow>
         \<not> safe b \<subseteq> opened b \<and> safe b \<subseteq> opened (fst (step b p))"
proof (cases p)
  case (Open xy)
  with assms open_cell_win show ?thesis by simp
next
  case (Flag xy)
  then show ?thesis by (simp add: flag_def)
next
  case (RightClicked xy)
  then show ?thesis
    using right_clicked_no_event[of b xy Win] by (simp add: right_clicked_opened)
qed

lemma run_opened_mono: "opened b \<subseteq> opened (run b ps)"
proof (induction ps arbitrary: b)
  case (Cons p ps)
  from step_opened_mono[of b p] Cons[of "fst (step b p)"] show ?case by auto
qed simp

lemma run_state_inv:
  "board_ok b \<Longrightarrow> state_inv b \<Longrightarrow> \<forall>p\<in>set ps. op_xy p \<in> xys b \<Longrightarrow> state_inv (run b ps)"
  by (induction ps arbitrary: b) (simp_all add: step_board_ok step_state_inv step_static)

lemma run_counts_safe:
  "board_ok b \<Longrightarrow> counts_safe b \<Longrightarrow> counts_safe (run b ps)"
  by (induction ps arbitrary: b) (simp_all add: step_board_ok step_counts_safe)

lemma run_snoc: "run b (ps @ [p]) = fst (step (run b ps) p)"
  by (induction ps arbitrary: b) simp_all

lemma length_trace: "length (trace b ps) = length ps"
  by (induction ps arbitrary: b) simp_all

lemma trace_nth:
  "i < length ps \<Longrightarrow> trace b ps ! i = snd (step (run b (take i ps)) (ps ! i))"
proof (induction ps arbitrary: b i)
  case (Cons p ps)
  then show ?case by (cases i) simp_all
qed simp

lemma run_take_Suc:
  "i < length ps \<Longrightarrow> run b (take (Suc i) ps) = fst (step (run b (take i ps)) (ps ! i))"
  by (simp add: take_Suc_conv_app_nth run_snoc)

lemma count_wins:
  "board_ok b \<Longrightarrow> counts_safe b \<Longrightarrow>
   length (filter (\<lambda>r. r = Inr (Some Win)) (trace b ps)) =
     (if \<not> safe b \<subseteq> opened b \<and> safe b \<subseteq> opened (run b ps) then 1 else 0)"
proof (induction ps arbitrary: b)
  case Nil
  then show ?case by simp
next
  case (Cons p ps)
  let ?b' = "fst (step b p)"
  have ok': "board_ok ?b'" by (rule step_board_ok[OF Cons.prems(1)])
  have cs': "counts_safe ?b'" using Cons.prems by (simp add: step_counts_safe)
  note IH = Cons.IH[OF ok' cs', unfolded safe_step]
  have w: "snd (step b p) = Inr (Some Win) \<longleftrightarrow> \<not> safe b \<subseteq> opened b \<and> safe b \<subseteq> opened ?b'"
    using Cons.prems by (simp add: step_win)
  have m1: "opened b \<subseteq> opened ?b'" by (rule step_opened_mono)
  have m2: "opened ?b' \<subseteq> opened (run ?b' ps)" by (rule run_opened_mono)
  show ?case
  proof (cases "snd (step b p) = Inr (Some Win)")
    case True
    with w m2 IH show ?thesis by auto
  next
    case False
    with w m1 IH show ?thesis by auto
  qed
qed

section \<open>Games from a constructed board\<close>

lemma init_playing:
  assumes "init c r d rs = Some (Inr b0)"
  shows "board_ok (run b0 ps)"
    and "\<forall>p\<in>set ps. op_xy p \<in> xys b0 \<Longrightarrow> state_inv (run b0 ps)"
    and "0 \<le> c \<Longrightarrow> 0 \<le> r \<Longrightarrow> 0 \<le> d \<Longrightarrow> counts_safe (run b0 ps)"
  using assms
  by (simp_all add: run_board_ok run_state_inv run_counts_safe init_board_ok init_state_inv
        init_counts_safe)

lemma init_demo: "init 2 1 (1 / 2) [1, 0] = Some (Inr demo_board)"
  by (simp add: init_def mines_number_of_def py_int_def place_mines.simps randrange_def
        demo_board_def)

lemma demo_xys: "xys demo_board = {(0, 0), (1, 0)}"
  by (auto simp: demo_board_def mem_board_xys)

lemma demo_mines: "mines demo_board = {(1, 0)}"
  by (simp add: demo_board_def)

lemma demo_safe: "safe demo_board = {(0, 0)}"
  by (auto simp: safe_def demo_xys demo_mines)

lemma init_4x1: "init 4 1 0 qs = Some (Inr board_4x1)"
  by (simp add: init_def mines_number_of_def py_int_def place_mines_done board_4x1_def)

lemma open_4x1:
  "empty_remaining (fst (open_cell board_4x1 (0, 0))) = 3"
  "snd (open_cell board_4x1 (0, 0)) = Inr None"
  "mines_near (fst (open_cell board_4x1 (0, 0))) (0, 0) = Some (Count 0)"
  by (simp_all add: open_cell_def board_4x1_def board_neighbours_def mem_board_xys)

lemma init_some_safe:
  assumes "init c r d rs = Some (Inr b0)" "0 < c" "0 < r" "0 \<le> d" "d < 1"
  shows "safe b0 \<noteq> {}"
proof -
  let ?n = "mines_number_of c r d"
  have n: "0 \<le> ?n" "?n < c * r"
    using assms by (simp_all add: mines_number_nonneg mines_number_less)
  from place_mines_empty_Inr[OF init_Inr(9)[OF assms(1)]] n(1)
  have m: "int (card (mines b0)) = ?n" by simp
  have "int (card (xys b0)) = c * r"
    using card_board_xys[of c r] assms(2,3) init_Inr(3)[OF assms(1)] by simp
  with m n(2) have "card (mines b0) < card (xys b0)" by linarith
  then have "\<not> xys b0 \<subseteq> mines b0"
    using init_board_ok[OF assms(1)] card_mono[of "mines b0" "xys b0"]
    unfolding board_ok_def by auto
  then show ?thesis by (auto simp: safe_def)
qed

lemma open_cell_mine_board:
  assumes "xy \<in> mines b" "xy \<notin> opened b"
  shows "snd (open_cell b xy) = Inr (Some Loss)"
    "mines_near (fst (open_cell b xy)) xy = Some MineTag"
    "xy \<in> flagged (fst (open_cell b xy))"
    "empty_remaining (fst (open_cell b xy)) = empty_remaining b"
    "opened (fst (open_cell b xy)) = insert xy (opened b)"
  using assms by (simp_all add: open_cell_mine)

lemma neighbour_mines:
  assumes "board_ok b" "s \<in> xys b" "neighbours b s = Some ns"
  shows "ns \<inter> mines b = {m \<in> mines b. chebyshev m s = 1}"
proof -
  have "mines b \<subseteq> xys b" using assms(1) unfolding board_ok_def by blast
  with in_bounds_neighbours[OF assms(1,2)] assms(3) show ?thesis by auto
qed

lemma open_cell_safe_board:
  assumes "board_ok b" "s \<in> xys b" "s \<notin> mines b" "s \<notin> opened b"
  shows "mines_near (fst (open_cell b s)) s =
           Some (Count (int (card {m \<in> mines b. chebyshev m s = 1})))"
    "snd (open_cell b s) = Inr None \<or> snd (open_cell b s) = Inr (Some Win)"
    "empty_remaining (fst (open_cell b s)) = empty_remaining b - 1"
proof -
  let ?ns = "{p \<in> xys b. chebyshev p s = 1}"
  have n: "neighbours b s = Some ?ns" by (rule in_bounds_neighbours[OF assms(1,2)])
  note oc = open_cell_safe[OF assms(4,3) n]
  show "mines_near (fst (open_cell b s)) s =
           Some (Count (int (card {m \<in> mines b. chebyshev m s = 1})))"
    using neighbour_mines[OF assms(1,2) n] by (simp add: oc)
  show "snd (open_cell b s) = Inr None \<or> snd (open_cell b s) = Inr (Some Win)"
    by (simp add: oc)
  show "empty_remaining (fst (open_cell b s)) = empty_remaining b - 1"
    by (simp add: oc)
qed

lemma init_3x3: "init 3 3 (1 / 9) [1, 1] = Some (Inr board_3x3)"
  by (simp add: init_def mines_number_of_def py_int_def place_mines.simps randrange_def
        board_3x3_def)

lemma chebyshev_ring:
  "{p. chebyshev p (x, y) = 1} =
     {(x - 1, y - 1), (x - 1, y), (x - 1, y + 1), (x, y - 1), (x, y + 1),
      (x + 1, y - 1), (x + 1, y), (x + 1, y + 1)}"
proof (rule set_eqI)
  fix p :: coord
  obtain nx ny where p: "p = (nx, ny)" by (cases p)
  show "p \<in> {p. chebyshev p (x, y) = 1} \<longleftrightarrow>
        p \<in> {(x - 1, y - 1), (x - 1, y), (x - 1, y + 1), (x, y - 1), (x, y + 1),
             (x + 1, y - 1), (x + 1, y), (x + 1, y + 1)}"
    unfolding p mem_Collect_eq chebyshev_one
    apply simp
    apply (rule iffI)
     apply (elim disjE conjE; simp)
    apply (elim disjE conjE; simp)
    done
qed

lemma card_ring:
  "card {(x - 1, y - 1), (x - 1, y), (x - 1, y + 1), (x, y - 1), (x, y + 1),
         (x + 1, y - 1), (x + 1, y), (x + 1, y + 1 :: int)} = 8" for x :: int
  by simp

lemma card_neighbours_le: "card {p \<in> sqs. chebyshev p (x, y) = 1} \<le> 8"
proof -
  have "{p \<in> sqs. chebyshev p (x, y) = 1} \<subseteq> {p. chebyshev p (x, y) = 1}" by blast
  then have "card {p \<in> sqs. chebyshev p (x, y) = 1} \<le> card {p. chebyshev p (x, y) = 1}"
    by (rule card_mono[rotated]) (simp add: chebyshev_ring)
  then show ?thesis by (simp only: chebyshev_ring card_ring)
qed

lemma card_neighbours_inner:
  assumes "0 < x" "x < c - 1" "0 < y" "y < r - 1"
  shows "card {p \<in> board_xys c r. chebyshev p (x, y) = 1} = 8"
proof -
  have "{p. chebyshev p (x, y) = 1} \<subseteq> board_xys c r"
    unfolding chebyshev_ring using assms by (simp add: mem_board_xys)
  then have "{p \<in> board_xys c r. chebyshev p (x, y) = 1} = {p. chebyshev p (x, y) = 1}"
    by blast
  then show ?thesis by (simp only: chebyshev_ring card_ring)
qed

lemma board_3x3_xys_mem: "(1, 1) \<in> xys board_3x3"
  by (simp add: board_3x3_def mem_board_xys)

lemma run_append: "run b (ps @ qs) = run (run b ps) qs"
  by (induction ps arbitrary: b) simp_all

lemma outside_board:
  assumes "board_ok b" "xy \<notin> xys b"
  shows "xy \<notin> mines b" "neighbours b xy = None"
  using assms board_neighbours_None[of xy "xys b"] unfolding board_ok_def by auto

lemma unopened_no_entry:
  assumes "board_ok b" "xy \<notin> opened b"
  shows "mines_near b xy = None"
  using assms unfolding board_ok_def by auto

lemma demo_state:
  "opened demo_board = {}" "flagged demo_board = {}" "mines_near demo_board = Map.empty"
  by (simp_all add: demo_board_def)

lemma step_near_inside:
  assumes "board_ok b" "dom (mines_near b) \<subseteq> xys b"
  shows "dom (mines_near (fst (step b p))) \<subseteq> xys (fst (step b p))"
proof (cases p)
  case (Open xy)
  show ?thesis
  proof (cases xy b rule: open_cell_cases)
    case opened
    with assms(2) show ?thesis unfolding Open by (simp add: open_cell_opened)
  next
    case mine
    moreover have "xy \<in> xys b" using mine(2) assms(1) unfolding board_ok_def by blast
    ultimately show ?thesis using assms(2) unfolding Open by (auto simp: open_cell_mine)
  next
    case no_key
    with assms(2) show ?thesis unfolding Open by (simp add: open_cell_no_key)
  next
    case (safe ns)
    moreover have "xy \<in> xys b"
      using safe(3) board_neighbours_None[of xy "xys b"] assms(1) by (auto simp: board_ok_def)
    ultimately show ?thesis using assms(2) unfolding Open by (auto simp: open_cell_safe)
  qed
qed (use assms in \<open>auto simp: flag_def flagged_remove_def right_clicked_def\<close>)

lemma run_near_inside:
  "board_ok b \<Longrightarrow> dom (mines_near b) \<subseteq> xys b \<Longrightarrow>
   dom (mines_near (run b ps)) \<subseteq> xys (run b ps)"
  by (induction ps arbitrary: b) (simp_all add: step_near_inside step_board_ok)

lemma init_near_inside:
  assumes "init c r d rs = Some (Inr b0)"
  shows "dom (mines_near (run b0 ps)) \<subseteq> xys (run b0 ps)"
  by (rule run_near_inside[OF init_board_ok[OF assms]]) (simp add: init_Inr[OF assms])

lemma open_cell_opens: "xy \<in> opened (fst (open_cell b xy))"
  by (cases xy b rule: open_cell_cases)
     (simp_all add: open_cell_opened open_cell_mine open_cell_no_key open_cell_safe)

section \<open>Arithmetic in double precision\<close>

lemma shift_right_even_nonneg: "0 \<le> a \<Longrightarrow> 0 \<le> shift_right_even a s"
  by (simp add: shift_right_even_def Let_def pos_imp_zdiv_nonneg_iff)

lemma round_double_cases:
  "round_double m e = PInf \<or> round_double m e = NInf \<or>
   (\<exists>M E. round_double m e = Fin M E \<and> (0 \<le> m \<longrightarrow> 0 \<le> M) \<and> (m \<le> 0 \<longrightarrow> M \<le> 0))"
proof (cases "m = 0")
  case True
  then show ?thesis by (simp add: round_double_def)
next
  case False
  let ?a = "\<bar>m\<bar>"
  let ?t = "max (bits ?a + e - 53) (- 1074)"
  let ?n = "if ?t \<le> e then ?a * 2 ^ nat (e - ?t) else shift_right_even ?a (nat (?t - e))"
  have n: "0 \<le> ?n" by (simp add: shift_right_even_nonneg)
  have "0 \<le> m \<Longrightarrow> 0 \<le> sgn m * ?n" using n by (simp add: sgn_if)
  moreover have "m \<le> 0 \<Longrightarrow> sgn m * ?n \<le> 0" using n False by (simp add: sgn_if)
  ultimately show ?thesis
    using False unfolding round_double_def Let_def by (auto simp del: max.absorb1 max.absorb2 max.absorb3 max.absorb4)
qed

lemma round_double_nonneg: "0 \<le> m \<Longrightarrow> nonneg_float (round_double m e)"
proof -
  assume m: "0 \<le> m"
  have "round_double m e \<noteq> NInf"
    using m by (auto simp: round_double_def Let_def)
  with round_double_cases[of m e] m show ?thesis by auto
qed

lemma float_of_int_Inr: "float_of_int i = Inr y \<Longrightarrow> y = round_double i 0"
  by (simp add: float_of_int_def split: pyfloat.splits)

lemma float_of_int_nonneg:
  assumes "0 \<le> i" "float_of_int i = Inr y"
  shows "nonneg_float y \<and> y \<noteq> NaN"
proof -
  have y: "y = round_double i 0" by (rule float_of_int_Inr[OF assms(2)])
  have "y \<noteq> NaN" unfolding y using round_double_cases[of i 0] by auto
  with round_double_nonneg[OF assms(1), of 0] y show ?thesis by simp
qed

lemma float_mul_nonneg: "nonneg_float x \<Longrightarrow> nonneg_float y \<Longrightarrow> nonneg_float (float_mul x y)"
  by (cases x; cases y) (simp_all add: round_double_nonneg)

lemma times_int_nonneg:
  "nonneg_float x \<Longrightarrow> 0 \<le> i \<Longrightarrow> times_int x i = Inr y \<Longrightarrow> nonneg_float y"
  by (auto simp: times_int_def float_mul_nonneg split: sum.splits dest: float_of_int_nonneg)

lemma density_product_nonneg:
  "nonneg_float d \<Longrightarrow> 0 \<le> c \<Longrightarrow> 0 \<le> r \<Longrightarrow> density_product d c r = Inr y \<Longrightarrow>
   nonneg_float y"
  by (auto simp: density_product_def split: sum.splits dest: times_int_nonneg)

lemma int_of_float_floor: "0 \<le> m \<Longrightarrow> int_of_float (Fin m e) = Inr \<lfloor>fval m e\<rfloor>"
proof (cases "0 \<le> e")
  case True
  have "fval m e = of_int (m * 2 ^ nat e)" using True by (simp add: fval_def)
  then have "\<lfloor>fval m e\<rfloor> = m * 2 ^ nat e" by (simp only: floor_of_int)
  with True show ?thesis by (simp add: int_of_float_def)
next
  case False
  assume m: "0 \<le> m"
  have "fval m e = of_int m / of_int (2 ^ nat (- e))" using False by (simp add: fval_def)
  then have "\<lfloor>fval m e\<rfloor> = m div 2 ^ nat (- e)" by (simp only: floor_divide_of_int_eq)
  with False m show ?thesis by (simp add: int_of_float_def)
qed

lemma mines_count_Inr:
  assumes "mines_count d c r = Inr n"
  shows "\<exists>m e. density_product d c r = Inr (Fin m e) \<and> int_of_float (Fin m e) = Inr n"
proof -
  from assms obtain x where p: "density_product d c r = Inr x" and i: "int_of_float x = Inr n"
    by (auto simp: mines_count_def split: sum.splits)
  from i obtain m e where "x = Fin m e"
    by (cases x) (simp_all add: int_of_float_def)
  with p i show ?thesis by blast
qed

lemma mines_count_floor:
  assumes "mines_count d c r = Inr n" "nonneg_float d" "0 \<le> c" "0 \<le> r"
  shows "\<exists>m e. density_product d c r = Inr (Fin m e) \<and> 0 \<le> m \<and> n = \<lfloor>fval m e\<rfloor>"
proof -
  from mines_count_Inr[OF assms(1)] obtain m e
    where p: "density_product d c r = Inr (Fin m e)" and i: "int_of_float (Fin m e) = Inr n"
    by blast
  from density_product_nonneg[OF assms(2-4) p] have m: "0 \<le> m" by simp
  with i int_of_float_floor[OF m, of e] p show ?thesis by auto
qed

lemma init_float_Inr:
  assumes "init_float c r d rs = Some (Inr b)"
  shows "\<exists>n. mines_count d c r = Inr n \<and>
           place_mines c r n {} rs = Some (Inr (mines b)) \<and>
           b = \<lparr>columns = c, rows = r, xys = board_xys c r,
                neighbours = board_neighbours (board_xys c r),
                mines = mines b, empty_remaining = c * r - n,
                opened = {}, flagged = {}, mines_near = Map.empty\<rparr>"
  using assms by (auto simp: init_float_def split: sum.splits option.splits)

lemma init_float_count:
  assumes "mines_count d c r = Inr n"
  shows "init_float c r d rs =
           (case place_mines c r n {} rs of
              None \<Rightarrow> None
            | Some (Inl e) \<Rightarrow> Some (Inl e)
            | Some (Inr ms) \<Rightarrow>
                Some (Inr \<lparr>columns = c, rows = r, xys = board_xys c r,
                           neighbours = board_neighbours (board_xys c r),
                           mines = ms, empty_remaining = c * r - n,
                           opened = {}, flagged = {}, mines_near = Map.empty\<rparr>))"
  using assms by (simp add: init_float_def)

text \<open>Every board of the construction in double precision is a board of \<open>init\<close>.\<close>

lemma init_float_is_init:
  assumes "init_float c r d rs = Some (Inr b)" "0 < c" "0 < r"
  shows "\<exists>q n. mines_count d c r = Inr n \<and> init c r q rs = Some (Inr b) \<and>
               (0 \<le> n \<longrightarrow> 0 \<le> q) \<and> (n < c * r \<longrightarrow> q < 1)"
proof -
  from init_float_Inr[OF assms(1)] obtain n where
    n: "mines_count d c r = Inr n" and
    p: "place_mines c r n {} rs = Some (Inr (mines b))" and
    b: "b = \<lparr>columns = c, rows = r, xys = board_xys c r,
                neighbours = board_neighbours (board_xys c r),
                mines = mines b, empty_remaining = c * r - n,
                opened = {}, flagged = {}, mines_near = Map.empty\<rparr>"
    by blast
  let ?q = "of_int n / of_int (c * r) :: rat"
  have pos: "0 < c * r" using assms(2,3) by simp
  then have "c \<noteq> 0" "r \<noteq> 0" by auto
  then have "?q * of_int c * of_int r = of_int n" by simp
  then have mn: "mines_number_of c r ?q = n"
    by (simp only: mines_number_of_def py_int_def floor_of_int ceiling_of_int if_cancel)
  have i: "init c r ?q rs = Some (Inr b)"
    unfolding init_def Let_def mn p using b by simp
  have rpos: "(0 :: rat) < of_int (c * r)" using pos by (simp only: of_int_0_less_iff)
  have 1: "0 \<le> n \<longrightarrow> 0 \<le> ?q"
  proof
    assume "0 \<le> n"
    then have "(0 :: rat) \<le> of_int n" by simp
    with rpos show "0 \<le> ?q" by (intro divide_nonneg_pos)
  qed
  have 2: "n < c * r \<longrightarrow> ?q < 1"
  proof
    assume "n < c * r"
    then have "(of_int n :: rat) < of_int (c * r)" by (simp only: of_int_less_iff)
    with rpos show "?q < 1" by (simp only: divide_less_eq_1_pos)
  qed
  from n i 1 2 show ?thesis by blast
qed

section \<open>Construction in double precision\<close>

lemma product_03: "density_product (Fin 5404319552844595 (- 54)) 10 1 = Inr (Fin 6755399441055744 (- 51))"
  by code_simp

lemma count_03: "mines_count (Fin 5404319552844595 (- 54)) 10 1 = Inr 3"
  by code_simp

lemma count_029: "mines_count (Fin 5224175567749775 (- 54)) 100 1 = Inr 28"
  by code_simp

lemma count_third: "mines_count (Fin 6004799503160661 (- 54)) 3 1 = Inr 1"
  by code_simp

lemma count_one: "mines_count (Fin 1 0) 1 1 = Inr 1"
  by code_simp

lemma count_half_0x3: "mines_count (Fin 1 (- 1)) 0 3 = Inr 0"
  by code_simp

lemma count_nan: "mines_count NaN 3 3 = Inl ValueError"
  by code_simp

lemma count_inf: "mines_count PInf 3 3 = Inl OverflowError"
  by code_simp

lemma init_float_10x1:
  "init_float 10 1 (Fin 5404319552844595 (- 54)) [0, 0, 1, 0, 2, 0] = Some (Inr board_10x1)"
  by (simp add: init_float_count[OF count_03] place_mines.simps randrange_def board_10x1_def
        insert_commute)

lemma init_float_1x1: "init_float 1 1 (Fin 1 0) [0, 0] = Some (Inr board_1x1)"
  by (simp add: init_float_count[OF count_one] place_mines.simps randrange_def board_1x1_def)

lemma init_float_0x3: "init_float 0 3 (Fin 1 (- 1)) [] = Some (Inr board_0x3)"
  by (simp add: init_float_count[OF count_half_0x3] place_mines_done board_0x3_def)

lemma init_float_3x1: "init_float 3 1 (Fin 6004799503160661 (- 54)) [0, 0] = Some (Inr board_3x1)"
  by (simp add: init_float_count[OF count_third] place_mines.simps randrange_def board_3x1_def)

lemma third_value:
  "0 \<le> fval 6004799503160661 (- 54)" "fval 6004799503160661 (- 54) < 1"
  "\<lfloor>fval 6004799503160661 (- 54) * of_int 3 * of_int 1\<rfloor> = 0"
  by (simp_all add: fval_def floor_eq_iff)

lemma init_float_returns:
  assumes "mines_count d c r = Inr n" "n \<le> c * r" "0 < c" "0 < r"
  shows "\<exists>b. init_float c r d (draws_for (all_squares c r)) = Some (Inr b)"
proof -
  have s: "set (all_squares c r) = board_xys c r"
    by (simp add: all_squares_def board_xys_def)
  have "n \<le> int (card ({} \<union> set (all_squares c r)))"
    using card_board_xys[of c r] assms(2-4) by (simp add: s)
  from place_mines_enough[OF assms(3,4) _ _ this]
  obtain ms where "place_mines c r n {} (draws_for (all_squares c r)) = Some (Inr ms)"
    by (auto simp: s)
  then show ?thesis by (simp add: init_float_count[OF assms(1)])
qed

lemma mines_count_error:
  assumes "mines_count d c r = Inl e"
  shows "e = ValueError \<or> e = OverflowError"
proof -
  have f: "float_of_int i = Inl e' \<Longrightarrow> e' = OverflowError" for i e'
    by (auto simp: float_of_int_def split: pyfloat.splits)
  have t: "times_int x i = Inl e' \<Longrightarrow> e' = OverflowError" for x i e'
    by (auto simp: times_int_def split: sum.splits dest: f)
  have p: "density_product d c r = Inl e' \<Longrightarrow> e' = OverflowError" for e'
    by (auto simp: density_product_def split: sum.splits dest: t)
  have i: "int_of_float x = Inl e' \<Longrightarrow> e' = ValueError \<or> e' = OverflowError" for x e'
    by (cases x) (auto simp: int_of_float_def)
  from assms show ?thesis
    by (auto simp: mines_count_def split: sum.splits dest: p i)
qed

lemma init_float_error:
  assumes "mines_count d c r = Inl e"
  shows "init_float c r d rs = Some (Inl e)"
  using assms by (simp add: init_float_def)

lemma init_float_no_mines:
  assumes "mines_count d c r = Inr n" "n \<le> 0"
  shows "init_float c r d rs =
           Some (Inr \<lparr>columns = c, rows = r, xys = board_xys c r,
                      neighbours = board_neighbours (board_xys c r),
                      mines = {}, empty_remaining = c * r - n,
                      opened = {}, flagged = {}, mines_near = Map.empty\<rparr>)"
  using assms by (simp add: init_float_count[OF assms(1)] place_mines_done)

lemma init_float_columns_error:
  assumes "mines_count d c r = Inr n" "0 < n" "c \<le> 0"
  shows "init_float c r d rs = Some (Inl ValueError)"
  using place_mines_columns_error[of "{}" n c r rs] assms
  by (simp add: init_float_count[OF assms(1)])

lemma init_float_rows_error:
  assumes "mines_count d c r = Inr n" "0 < n" "0 < c" "r \<le> 0" "rs \<noteq> []"
  shows "init_float c r d rs = Some (Inl ValueError)"
  using place_mines_rows_error[of "{}" n c r rs] assms
  by (simp add: init_float_count[OF assms(1)])

lemma init_float_too_many:
  assumes "mines_count d c r = Inr n" "0 < c" "0 < r" "c * r < n"
  shows "init_float c r d rs = None"
proof (rule ccontr)
  assume "init_float c r d rs \<noteq> None"
  then obtain res where res: "place_mines c r n {} rs = Some res"
    by (auto simp: init_float_count[OF assms(1)] split: option.splits)
  have "0 < c * r" using assms(2,3) by simp
  with assms(4) have "int (card ({} :: coord set)) \<le> n" by simp
  from place_mines_pos[OF assms(2,3) _ _ this res]
  obtain ms where ms: "finite ms" "ms \<subseteq> board_xys c r" "int (card ms) = n" by auto
  have "card ms \<le> card (board_xys c r)"
    using ms(2) by (simp add: card_mono finite_board_xys)
  with card_board_xys[of c r] assms ms(3) show False by simp
qed

lemma init_float_Inl:
  assumes "init_float c r d rs = Some (Inl e)"
  shows "mines_count d c r = Inl e \<or>
         (e = ValueError \<and> (\<exists>n. mines_count d c r = Inr n \<and> 0 < n) \<and> (c \<le> 0 \<or> r \<le> 0))"
proof (cases "mines_count d c r")
  case (Inl e')
  with assms show ?thesis by (simp add: init_float_def)
next
  case (Inr n)
  from assms have "place_mines c r n {} rs = Some (Inl e)"
    by (auto simp: init_float_count[OF Inr] split: option.splits sum.splits)
  from place_mines_empty_Inl[OF this] Inr show ?thesis by simp
qed

lemma count_neg_2x2: "mines_count (Fin 1 (- 1)) (- 2) (- 2) = Inr 2"
  by code_simp

lemma count_rows_neg: "mines_count (Fin (- 1) (- 1)) 2 (- 2) = Inr 2"
  by code_simp

lemma count_neg_density: "mines_count (Fin (- 1) (- 1)) 2 1 = Inr (- 1)"
  by code_simp

lemma count_two: "mines_count (Fin 2 0) 1 1 = Inr 2"
  by code_simp

section \<open>Boards of the construction in double precision\<close>

lemma float_of_int_zero: "float_of_int 0 = Inr (Fin 0 0)"
  by (simp add: float_of_int_def round_double_def)

lemma float_of_int_Fin:
  assumes "float_of_int i = Inr y"
  shows "\<exists>m e. y = Fin m e"
proof -
  have y: "y = round_double i 0" by (rule float_of_int_Inr[OF assms])
  from assms have "round_double i 0 \<noteq> PInf" "round_double i 0 \<noteq> NInf"
    by (auto simp: float_of_int_def split: pyfloat.splits)
  with round_double_cases[of i 0] y show ?thesis by blast
qed

lemma float_mul_zero_right: "float_mul x (Fin 0 0) = Fin 0 0 \<or> float_mul x (Fin 0 0) = NaN"
  by (cases x) (simp_all add: round_double_def)

lemma float_mul_zero_left: "float_mul (Fin 0 0) (Fin m e) = Fin 0 0"
  by (simp add: round_double_def)

lemma zero_count:
  assumes "c = 0 \<or> r = 0" "mines_count d c r = Inr n"
  shows "n = 0"
proof -
  from assms(2) obtain x y where
    x: "times_int d c = Inr x" and y: "times_int x r = Inr y" and n: "int_of_float y = Inr n"
    by (auto simp: mines_count_def density_product_def split: sum.splits)
  have "y = Fin 0 0 \<or> y = NaN"
  proof (cases "r = 0")
    case True
    with y show ?thesis
      using float_mul_zero_right[of x] by (auto simp: times_int_def float_of_int_zero)
  next
    case False
    with assms(1) have "c = 0" by simp
    with x have x0: "x = Fin 0 0 \<or> x = NaN"
      using float_mul_zero_right[of d] by (auto simp: times_int_def float_of_int_zero)
    from y obtain fr where fr: "float_of_int r = Inr fr" and yy: "y = float_mul x fr"
      by (auto simp: times_int_def split: sum.splits)
    from float_of_int_Fin[OF fr] obtain m e where "fr = Fin m e" by blast
    with x0 yy show ?thesis by (auto simp: round_double_def)
  qed
  with n show ?thesis by (auto simp: int_of_float_def)
qed

lemma init_float_board:
  assumes "init_float c r d rs = Some (Inr b)"
  shows "\<exists>q. init c r q rs = Some (Inr b)"
proof -
  from init_float_Inr[OF assms] obtain n where
    n: "mines_count d c r = Inr n" and
    p: "place_mines c r n {} rs = Some (Inr (mines b))" and
    b: "b = \<lparr>columns = c, rows = r, xys = board_xys c r,
                neighbours = board_neighbours (board_xys c r),
                mines = mines b, empty_remaining = c * r - n,
                opened = {}, flagged = {}, mines_near = Map.empty\<rparr>"
    by blast
  let ?q = "of_int n / of_int (c * r) :: rat"
  have "?q * of_int c * of_int r = of_int n"
  proof (cases "c = 0 \<or> r = 0")
    case True
    from zero_count[OF True n] True show ?thesis by auto
  next
    case False
    then show ?thesis by simp
  qed
  then have mn: "mines_number_of c r ?q = n"
    by (simp only: mines_number_of_def py_int_def floor_of_int ceiling_of_int if_cancel)
  have "init c r ?q rs = Some (Inr b)"
    unfolding init_def Let_def mn p using b by simp
  then show ?thesis by blast
qed

lemma init_float_playing:
  assumes "init_float c r d rs = Some (Inr b0)"
  shows "board_ok (run b0 ps)"
    and "\<forall>p\<in>set ps. op_xy p \<in> xys b0 \<Longrightarrow> state_inv (run b0 ps)"
    and "dom (mines_near (run b0 ps)) \<subseteq> xys (run b0 ps)"
    and "opened b0 = {}" "flagged b0 = {}" "mines_near b0 = Map.empty"
proof -
  from init_float_board[OF assms] obtain q where q: "init c r q rs = Some (Inr b0)" by blast
  show "board_ok (run b0 ps)" by (rule init_playing(1)[OF q])
  show "\<forall>p\<in>set ps. op_xy p \<in> xys b0 \<Longrightarrow> state_inv (run b0 ps)"
    by (rule init_playing(2)[OF q])
  show "dom (mines_near (run b0 ps)) \<subseteq> xys (run b0 ps)" by (rule init_near_inside[OF q])
  show "opened b0 = {}" "flagged b0 = {}" "mines_near b0 = Map.empty"
    by (simp_all add: init_Inr[OF q])
qed







lemma init_float_demo:
  "init_float 2 1 (Fin 1 (- 1)) [1, 0] = Some (Inr demo_board)"
proof -
  have "mines_count (Fin 1 (- 1)) 2 1 = Inr 1" by code_simp
  from init_float_count[OF this] show ?thesis
    by (simp add: place_mines.simps randrange_def demo_board_def)
qed

section \<open>The claims\<close>

text \<open>
  C1. On a board built with positive dimensions and a density that is not negative,
  after any list of calls that name squares of the board, \<open>empty_remaining\<close> is the
  number of squares less the number of mines less the number of opened squares without
  a mine; it is never negative, and it is zero exactly when every square without a mine
  has been opened.
\<close>

theorem remaining_count:
  assumes "init c r d rs = Some (Inr b0)" and "0 < c" and "0 < r" and "0 \<le> d"
    and "\<forall>p\<in>set ps. op_xy p \<in> xys b0"
  shows "empty_remaining (run b0 ps) =
           (c * r - int (card (mines (run b0 ps)))) - int (card (opened (run b0 ps) - mines (run b0 ps)))
         \<and> 0 \<le> empty_remaining (run b0 ps)
         \<and> (empty_remaining (run b0 ps) = 0 \<longleftrightarrow>
              xys (run b0 ps) - mines (run b0 ps) \<subseteq> opened (run b0 ps))"
proof -
  let ?b = "run b0 ps"
  have ok: "board_ok ?b" by (rule init_playing(1)[OF assms(1)])
  have si: "state_inv ?b" by (rule init_playing(2)[OF assms(1,5)])
  have cs: "counts_safe ?b" using init_playing(3)[OF assms(1) _ _ assms(4)] assms(2,3) by simp
  have x: "xys ?b = board_xys c r" "finite (xys ?b)"
    using init_Inr[OF assms(1)] by (simp_all add: run_static finite_board_xys)
  have m: "finite (mines ?b)" "mines ?b \<subseteq> xys ?b" using ok unfolding board_ok_def by blast+
  have o: "opened ?b \<subseteq> xys ?b" using si by (simp add: state_inv_def)
  have cx: "int (card (xys ?b)) = c * r"
    using card_board_xys[of c r] assms(2,3) x(1) by simp
  have cm: "card (mines ?b) \<le> card (xys ?b)" using m x(2) by (simp add: card_mono)
  have sf: "int (card (safe ?b)) = c * r - int (card (mines ?b))"
    unfolding safe_def using card_Diff_subset[OF m(1) m(2)] cm cx by linarith
  have sub: "opened ?b - mines ?b \<subseteq> safe ?b" using o by (auto simp: safe_def)
  have fin: "finite (opened ?b - mines ?b)" "finite (safe ?b)"
    using o x(2) by (auto simp: safe_def intro: finite_subset)
  have eq: "safe ?b - opened ?b = safe ?b - (opened ?b - mines ?b)" by (auto simp: safe_def)
  have "card (opened ?b - mines ?b) \<le> card (safe ?b)" using sub fin by (simp add: card_mono)
  with card_Diff_subset[OF fin(1) sub]
  have "int (card (safe ?b - opened ?b)) = int (card (safe ?b)) - int (card (opened ?b - mines ?b))"
    unfolding eq by linarith
  with cs sf have 1: "empty_remaining ?b =
      (c * r - int (card (mines ?b))) - int (card (opened ?b - mines ?b))"
    by (simp add: counts_safe_def)
  have 2: "0 \<le> empty_remaining ?b" using cs by (simp add: counts_safe_def)
  have 3: "empty_remaining ?b = 0 \<longleftrightarrow> xys ?b - mines ?b \<subseteq> opened ?b"
    using counts_safe_zero[OF ok cs] 2 by (simp add: safe_def)
  from 1 2 3 show ?thesis by blast
qed

theorem remaining_count_witness:
  "init 2 1 (1 / 2) [1, 0] = Some (Inr demo_board)
   \<and> op_xy (Flag (1, 0)) \<in> xys demo_board \<and> op_xy (Open (0, 0)) \<in> xys demo_board
   \<and> empty_remaining (run demo_board [Flag (1, 0), Open (0, 0)]) = 0
   \<and> opened (run demo_board [Flag (1, 0), Open (0, 0)]) = {(0, 0)}"
proof -
  have h: "\<forall>p\<in>set [Flag (1, 0), Open (0, 0)]. op_xy p \<in> xys demo_board"
    by (simp add: demo_xys)
  have o: "opened (run demo_board [Flag (1, 0), Open (0, 0)]) = {(0, 0)}"
    by (simp add: demo_board_def open_cell_def flag_def board_neighbours_def mem_board_xys)
  have m: "mines (run demo_board [Flag (1, 0), Open (0, 0)]) = {(1, 0)}"
    unfolding run_static by (simp add: demo_board_def)
  from remaining_count[OF init_demo _ _ _ h, unfolded o m] have
    "empty_remaining (run demo_board [Flag (1, 0), Open (0, 0)]) = 0"
    by simp
  with init_demo h o show ?thesis by simp
qed

text \<open>
  C2. On a board built with positive dimensions and a density in \<open>[0, 1)\<close>, a call
  reports \<open>Win\<close> exactly when not every square without a mine was opened before it
  and every such square is opened after it. So a game, whatever its calls, reports
  \<open>Win\<close> once if it opens every square without a mine, and never otherwise. On the
  board of four squares in a row without a mine, opening \<open>(0, 0)\<close> leaves
  \<open>empty_remaining\<close> at 3 and reports nothing.
\<close>

theorem win_once:
  assumes "init c r d rs = Some (Inr b0)" and "0 < c" and "0 < r" and "0 \<le> d" and "d < 1"
  shows "(\<forall>i<length ps.
            trace b0 ps ! i = Inr (Some Win) \<longleftrightarrow>
              \<not> safe b0 \<subseteq> opened (run b0 (take i ps)) \<and>
              safe b0 \<subseteq> opened (run b0 (take (Suc i) ps)))
         \<and> length (filter (\<lambda>e. e = Inr (Some Win)) (trace b0 ps)) =
             (if safe b0 \<subseteq> opened (run b0 ps) then 1 else 0)
         \<and> init 4 1 0 qs = Some (Inr board_4x1)
         \<and> empty_remaining board_4x1 = 4
         \<and> empty_remaining (fst (open_cell board_4x1 (0, 0))) = 3
         \<and> snd (open_cell board_4x1 (0, 0)) = Inr None"
proof -
  have ok: "board_ok b0" by (rule init_board_ok[OF assms(1)])
  have cs: "counts_safe b0" using init_counts_safe[OF assms(1)] assms(2-4) by simp
  have each: "trace b0 ps ! i = Inr (Some Win) \<longleftrightarrow>
              \<not> safe b0 \<subseteq> opened (run b0 (take i ps)) \<and>
              safe b0 \<subseteq> opened (run b0 (take (Suc i) ps))" if i: "i < length ps" for i
  proof -
    let ?b = "run b0 (take i ps)"
    have okb: "board_ok ?b" by (rule run_board_ok[OF ok])
    have csb: "counts_safe ?b" by (rule run_counts_safe[OF ok cs])
    from step_win[OF okb csb] show ?thesis
      by (simp add: trace_nth[OF i] run_take_Suc[OF i] safe_run)
  qed
  have "opened b0 = {}" by (rule init_Inr(6)[OF assms(1)])
  with init_some_safe[OF assms(1-5)] have "\<not> safe b0 \<subseteq> opened b0" by simp
  with count_wins[OF ok cs]
  have cnt: "length (filter (\<lambda>e. e = Inr (Some Win)) (trace b0 ps)) =
             (if safe b0 \<subseteq> opened (run b0 ps) then 1 else 0)" by simp
  have e4: "empty_remaining board_4x1 = 4" by (simp add: board_4x1_def)
  from each cnt init_4x1[of qs] e4 open_4x1(1,2) show ?thesis by blast
qed

theorem win_once_witness:
  "init 2 1 (1 / 2) [1, 0] = Some (Inr demo_board)
   \<and> trace demo_board [Open (0, 0), Open (0, 0), Open (1, 0)] =
       [Inr (Some Win), Inr None, Inr (Some Loss)]
   \<and> length (filter (\<lambda>e. e = Inr (Some Win))
        (trace demo_board [Open (0, 0), Open (0, 0), Open (1, 0)])) = 1"
proof -
  let ?ps = "[Open (0, 0), Open (0, 0), Open (1, 0)]"
  have o: "opened (run demo_board ?ps) = {(0, 0), (1, 0)}"
    by (auto simp add: demo_board_def open_cell_def flag_def board_neighbours_def mem_board_xys)
  have t: "trace demo_board ?ps = [Inr (Some Win), Inr None, Inr (Some Loss)]"
    by (simp add: demo_board_def open_cell_def flag_def board_neighbours_def mem_board_xys)
  from win_once[OF init_demo, of ?ps "[]", unfolded o demo_safe]
  have "length (filter (\<lambda>e. e = Inr (Some Win)) (trace demo_board ?ps)) = 1"
    by simp
  with init_demo t show ?thesis by simp
qed

text \<open>
  C3. At any board of a game, opening an unopened mine stores \<open>'mine'\<close> for the
  square, flags it, leaves \<open>empty_remaining\<close> as it was and reports \<open>Loss\<close>. The game
  goes on: after any further calls, opening an unopened square of the board without a
  mine stores the number of mines at distance 1 from it and does not report \<open>Loss\<close>.
\<close>

theorem open_mine_then_safe:
  assumes "init c r d rs = Some (Inr b0)"
    and "xy \<in> mines (run b0 ps)" and "xy \<notin> opened (run b0 ps)"
  shows "snd (open_cell (run b0 ps) xy) = Inr (Some Loss)
         \<and> mines_near (fst (open_cell (run b0 ps) xy)) xy = Some MineTag
         \<and> xy \<in> flagged (fst (open_cell (run b0 ps) xy))
         \<and> empty_remaining (fst (open_cell (run b0 ps) xy)) = empty_remaining (run b0 ps)
         \<and> (\<forall>qs s. s \<in> xys b0 \<and> s \<notin> mines b0 \<and>
                    s \<notin> opened (run (fst (open_cell (run b0 ps) xy)) qs) \<longrightarrow>
               mines_near (fst (open_cell (run (fst (open_cell (run b0 ps) xy)) qs) s)) s =
                 Some (Count (int (card {m \<in> mines b0. chebyshev m s = 1})))
               \<and> (snd (open_cell (run (fst (open_cell (run b0 ps) xy)) qs) s) = Inr None \<or>
                  snd (open_cell (run (fst (open_cell (run b0 ps) xy)) qs) s) = Inr (Some Win)))"
proof -
  let ?b = "run b0 ps"
  let ?b' = "fst (open_cell ?b xy)"
  have later: "run ?b' qs = run b0 (ps @ Open xy # qs)" for qs
    by (induction ps arbitrary: b0) simp_all
  have "mines_near (fst (open_cell (run ?b' qs) s)) s =
          Some (Count (int (card {m \<in> mines b0. chebyshev m s = 1})))
        \<and> (snd (open_cell (run ?b' qs) s) = Inr None \<or>
           snd (open_cell (run ?b' qs) s) = Inr (Some Win))"
    if "s \<in> xys b0" "s \<notin> mines b0" "s \<notin> opened (run ?b' qs)" for qs s
  proof -
    let ?c = "run ?b' qs"
    have ok: "board_ok ?c" unfolding later by (rule init_playing(1)[OF assms(1)])
    have st: "xys ?c = xys b0" "mines ?c = mines b0" unfolding later by (simp_all add: run_static)
    from open_cell_safe_board(1,2)[OF ok, of s] that show ?thesis by (simp add: st)
  qed
  with open_cell_mine_board(1-4)[OF assms(2,3)] show ?thesis by blast
qed

theorem open_mine_then_safe_witness:
  "init 2 1 (1 / 2) [1, 0] = Some (Inr demo_board)
   \<and> (1, 0) \<in> mines (run demo_board [Flag (0, 0)])
   \<and> (1, 0) \<notin> opened (run demo_board [Flag (0, 0)])
   \<and> snd (open_cell (run demo_board [Flag (0, 0)]) (1, 0)) = Inr (Some Loss)
   \<and> mines_near (fst (open_cell (fst (open_cell (run demo_board [Flag (0, 0)]) (1, 0))) (0, 0))) (0, 0)
       = Some (Count 1)"
proof -
  let ?b = "run demo_board [Flag (0, 0)]"
  have m: "(1, 0) \<in> mines ?b" by (simp add: flag_def demo_board_def)
  have o: "(1, 0) \<notin> opened ?b" by (simp add: flag_def demo_board_def)
  have e: "opened ?b = {}" by (simp add: flag_def demo_board_def)
  have "(0, 0) \<notin> opened (run (fst (open_cell ?b (1, 0))) [])"
    unfolding run.simps(1) open_cell_mine_board(5)[OF m o] e by simp
  then have s: "(0, 0) \<in> xys demo_board \<and> (0, 0) \<notin> mines demo_board \<and>
           (0, 0) \<notin> opened (run (fst (open_cell ?b (1, 0))) [])"
    by (simp add: demo_xys demo_mines)
  have k: "{m \<in> mines demo_board. chebyshev m (0, 0) = 1} = {(1, 0)}"
    by (auto simp: demo_mines chebyshev_def)
  note t = open_mine_then_safe[OF init_demo m o]
  from t have 1: "snd (open_cell ?b (1, 0)) = Inr (Some Loss)" by blast
  from t s have "mines_near (fst (open_cell (run (fst (open_cell ?b (1, 0))) []) (0, 0))) (0, 0)
       = Some (Count (int (card {m \<in> mines demo_board. chebyshev m (0, 0) = 1})))" by blast
  then have 2: "mines_near (fst (open_cell (fst (open_cell ?b (1, 0))) (0, 0))) (0, 0) = Some (Count 1)"
    unfolding k by simp
  from init_demo m o 1 2 show ?thesis by blast
qed

text \<open>
  C5. At any board of a game and for every square \<open>(x, y)\<close> of the board, the entry
  of \<open>neighbours\<close> is the set of the squares of the board at Chebyshev distance 1 from
  it: the square itself is not in it, it is inside the board, it has at most 8
  elements, and exactly 8 when the square touches no edge.
\<close>

theorem neighbours_chebyshev:
  assumes "init c r d rs = Some (Inr b0)" and "(x, y) \<in> xys (run b0 ps)"
  shows "neighbours (run b0 ps) (x, y) =
           Some {p \<in> xys (run b0 ps). chebyshev p (x, y) = 1}
         \<and> (x, y) \<notin> {p \<in> xys (run b0 ps). chebyshev p (x, y) = 1}
         \<and> {p \<in> xys (run b0 ps). chebyshev p (x, y) = 1} \<subseteq> board_xys c r
         \<and> card {p \<in> xys (run b0 ps). chebyshev p (x, y) = 1} \<le> 8
         \<and> (0 < x \<and> x < c - 1 \<and> 0 < y \<and> y < r - 1 \<longrightarrow>
              card {p \<in> xys (run b0 ps). chebyshev p (x, y) = 1} = 8)"
proof -
  let ?b = "run b0 ps"
  have ok: "board_ok ?b" by (rule init_playing(1)[OF assms(1)])
  have x: "xys ?b = board_xys c r" by (simp add: run_static init_Inr(3)[OF assms(1)])
  have 1: "neighbours ?b (x, y) = Some {p \<in> xys ?b. chebyshev p (x, y) = 1}"
    by (rule in_bounds_neighbours[OF ok assms(2)])
  have 2: "(x, y) \<notin> {p \<in> xys ?b. chebyshev p (x, y) = 1}"
    by (simp add: chebyshev_def)
  have 3: "{p \<in> xys ?b. chebyshev p (x, y) = 1} \<subseteq> board_xys c r"
    unfolding x by blast
  have 4: "card {p \<in> xys ?b. chebyshev p (x, y) = 1} \<le> 8"
    by (rule card_neighbours_le)
  have 5: "card {p \<in> xys ?b. chebyshev p (x, y) = 1} = 8"
    if "0 < x \<and> x < c - 1 \<and> 0 < y \<and> y < r - 1"
    unfolding x using that by (simp add: card_neighbours_inner)
  from 1 2 3 4 5 show ?thesis by blast
qed

theorem neighbours_chebyshev_witness:
  "init 3 3 (1 / 9) [1, 1] = Some (Inr board_3x3)
   \<and> (1, 1) \<in> xys (run board_3x3 [Open (0, 0)])
   \<and> card {p \<in> xys (run board_3x3 [Open (0, 0)]). chebyshev p (1, 1) = 1} = 8"
proof -
  have m: "(1, 1) \<in> xys (run board_3x3 [Open (0, 0)])"
    unfolding run_static by (rule board_3x3_xys_mem)
  from neighbours_chebyshev[OF init_3x3 m]
  have "card {p \<in> xys (run board_3x3 [Open (0, 0)]). chebyshev p (1, 1) = 1} = 8"
    by simp
  with init_3x3 m show ?thesis by blast
qed

text \<open>
  C6. The claim holds for calls that name squares of the board, and not for every
  call: \<open>flag\<close> takes any pair, and flagging a pair outside the board puts it into
  \<open>flagged\<close>.
\<close>

theorem flag_outside_breaks_invariant:
  "init 2 1 (1 / 2) [1, 0] = Some (Inr demo_board)
   \<and> flagged demo_board = {}
   \<and> snd (step demo_board (Flag (5, 5))) = Inr None
   \<and> (5, 5) \<in> flagged (fst (step demo_board (Flag (5, 5))))
   \<and> (5, 5) \<notin> xys (fst (step demo_board (Flag (5, 5))))"
  using init_demo by (simp add: flag_def demo_state demo_xys)

text \<open>
  C6, amended. After any list of calls that name squares of the board, \<open>opened\<close> and
  \<open>flagged\<close> are inside the board and the keys of \<open>mines_near\<close> are the opened
  squares. Whatever the calls of a game and whatever pair the next call names,
  \<open>opened\<close> does not shrink, an entry of \<open>mines_near\<close> keeps its value, and opening
  an opened square changes nothing and reports nothing. The reads \<open>is_opened\<close>,
  \<open>is_flagged\<close> and \<open>mines_near_of\<close> return no board.
\<close>

theorem invariants_in_bounds:
  assumes "init c r d rs = Some (Inr b0)" and "\<forall>p\<in>set ps. op_xy p \<in> xys b0"
  shows "opened (run b0 ps) \<subseteq> xys (run b0 ps)
         \<and> flagged (run b0 ps) \<subseteq> xys (run b0 ps)
         \<and> dom (mines_near (run b0 ps)) = opened (run b0 ps)
         \<and> opened (run b0 qs) \<subseteq> opened (fst (step (run b0 qs) p))
         \<and> (mines_near (run b0 qs) xy = Some v \<longrightarrow>
              mines_near (fst (step (run b0 qs) p)) xy = Some v)
         \<and> (xy \<in> opened (run b0 qs) \<longrightarrow> open_cell (run b0 qs) xy = (run b0 qs, Inr None))"
proof -
  have si: "state_inv (run b0 ps)" by (rule init_playing(2)[OF assms])
  have ok: "board_ok (run b0 qs)" by (rule init_playing(1)[OF assms(1)])
  have 1: "opened (run b0 ps) \<subseteq> xys (run b0 ps)"
    and 2: "flagged (run b0 ps) \<subseteq> xys (run b0 ps)"
    and 3: "dom (mines_near (run b0 ps)) = opened (run b0 ps)"
    using si unfolding state_inv_def by blast+
  have 4: "opened (run b0 qs) \<subseteq> opened (fst (step (run b0 qs) p))"
    by (rule step_opened_mono)
  have 5: "mines_near (run b0 qs) xy = Some v \<longrightarrow>
           mines_near (fst (step (run b0 qs) p)) xy = Some v"
    using step_mines_near_kept[OF ok] by blast
  have 6: "xy \<in> opened (run b0 qs) \<longrightarrow> open_cell (run b0 qs) xy = (run b0 qs, Inr None)"
    by (simp add: open_cell_opened)
  from 1 2 3 4 5 6 show ?thesis by blast
qed

theorem invariants_in_bounds_witness:
  "init 2 1 (1 / 2) [1, 0] = Some (Inr demo_board)
   \<and> op_xy (Open (1, 0)) \<in> xys demo_board \<and> op_xy (Flag (0, 0)) \<in> xys demo_board
   \<and> dom (mines_near (run demo_board [Open (1, 0), Flag (0, 0)])) = {(1, 0)}
   \<and> opened (run demo_board [Open (1, 0), Flag (0, 0)]) = {(1, 0)}
   \<and> mines_near (run demo_board [Open (1, 0), Flag (0, 0)]) (1, 0) = Some MineTag
   \<and> mines_near (fst (step (run demo_board [Open (1, 0), Flag (0, 0)]) (Open (7, 7)))) (1, 0)
       = Some MineTag
   \<and> open_cell (run demo_board [Open (1, 0), Flag (0, 0)]) (1, 0) =
       (run demo_board [Open (1, 0), Flag (0, 0)], Inr None)"
proof -
  let ?ps = "[Open (1, 0), Flag (0, 0)]"
  have h: "\<forall>p\<in>set ?ps. op_xy p \<in> xys demo_board" by (simp add: demo_xys)
  have o: "opened (run demo_board ?ps) = {(1, 0)}"
    by (simp add: open_cell_def flag_def demo_mines demo_state)
  have n: "mines_near (run demo_board ?ps) (1, 0) = Some MineTag"
    by (simp add: open_cell_def flag_def demo_mines demo_state)
  note t = invariants_in_bounds[OF init_demo h, of ?ps "Open (7, 7)" "(1, 0)" MineTag]
  from t have d: "dom (mines_near (run demo_board ?ps)) = {(1, 0)}"
    unfolding o by blast
  from t n have k:
    "mines_near (fst (step (run demo_board ?ps) (Open (7, 7)))) (1, 0) = Some MineTag"
    by blast
  from t o have r: "open_cell (run demo_board ?ps) (1, 0) = (run demo_board ?ps, Inr None)"
    by blast
  from init_demo h o d n k r show ?thesis by simp
qed

text \<open>
  C10. At any board of a game, opening a pair outside the board that is not in
  \<open>opened\<close> adds it to \<open>opened\<close> and then raises \<open>KeyError\<close>: the pair is left in
  \<open>opened\<close> without an entry in \<open>mines_near\<close>, nothing else has changed, and opening
  it again returns without an error and without an event.
\<close>

theorem open_outside_not_atomic:
  assumes "init c r d rs = Some (Inr b0)"
    and "xy \<notin> xys (run b0 ps)" and "xy \<notin> opened (run b0 ps)"
  shows "open_cell (run b0 ps) xy =
           ((run b0 ps)\<lparr>opened := insert xy (opened (run b0 ps))\<rparr>, Inl KeyError)
         \<and> xy \<in> opened (fst (open_cell (run b0 ps) xy))
         \<and> mines_near (fst (open_cell (run b0 ps) xy)) xy = None
         \<and> open_cell (fst (open_cell (run b0 ps) xy)) xy =
             (fst (open_cell (run b0 ps) xy), Inr None)"
proof -
  let ?b = "run b0 ps"
  have ok: "board_ok ?b" by (rule init_playing(1)[OF assms(1)])
  note out = outside_board[OF ok assms(2)]
  have 1: "open_cell ?b xy = (?b\<lparr>opened := insert xy (opened ?b)\<rparr>, Inl KeyError)"
    by (rule open_cell_no_key[OF assms(3) out])
  have 2: "xy \<in> opened (fst (open_cell ?b xy))" by (simp add: 1)
  have 3: "mines_near (fst (open_cell ?b xy)) xy = None"
    using unopened_no_entry[OF ok assms(3)] by (simp add: 1)
  have 4: "open_cell (fst (open_cell ?b xy)) xy = (fst (open_cell ?b xy), Inr None)"
    by (rule open_cell_opened[OF 2])
  from 1 2 3 4 show ?thesis by blast
qed

theorem open_outside_not_atomic_witness:
  "init 2 1 (1 / 2) [1, 0] = Some (Inr demo_board)
   \<and> (2, 0) \<notin> xys (run demo_board [Open (0, 0)])
   \<and> (2, 0) \<notin> opened (run demo_board [Open (0, 0)])
   \<and> snd (open_cell (run demo_board [Open (0, 0)]) (2, 0)) = Inl KeyError
   \<and> (2, 0) \<in> opened (fst (open_cell (run demo_board [Open (0, 0)]) (2, 0)))
   \<and> mines_near (fst (open_cell (run demo_board [Open (0, 0)]) (2, 0))) (2, 0) = None"
proof -
  let ?b = "run demo_board [Open (0, 0)]"
  have x: "(2, 0) \<notin> xys ?b" unfolding run_static by (simp add: demo_xys)
  have "opened ?b = {(0, 0)}"
    by (simp add: demo_board_def open_cell_def flag_def board_neighbours_def mem_board_xys)
  then have o: "(2, 0) \<notin> opened ?b" by simp
  note t = open_outside_not_atomic[OF init_demo x o]
  from t have 1: "snd (open_cell ?b (2, 0)) = Inl KeyError" by simp
  from t have 2: "(2, 0) \<in> opened (fst (open_cell ?b (2, 0)))" by blast
  from t have 3: "mines_near (fst (open_cell ?b (2, 0))) (2, 0) = None" by blast
  from init_demo x o 1 2 3 show ?thesis by blast
qed

text \<open>
  C4. The floor of the product of the three numbers is not always the number of mines.
  At the double nearest to one third, on three squares in a row, the density is in
  \<open>[0, 1)\<close> and the product of the three numbers is below 1, but the first product of
  the program is rounded to the double 1 and the board has one mine.
\<close>

theorem rounded_count_above_floor:
  "init_float 3 1 (Fin 6004799503160661 (- 54)) [0, 0] = Some (Inr board_3x1)
   \<and> 0 \<le> fval 6004799503160661 (- 54) \<and> fval 6004799503160661 (- 54) < 1
   \<and> \<lfloor>fval 6004799503160661 (- 54) * of_int 3 * of_int 1\<rfloor> = 0
   \<and> card (mines board_3x1) = 1"
proof -
  have "card (mines board_3x1) = 1" by (simp add: board_3x1_def)
  with init_float_3x1 third_value show ?thesis by blast
qed

text \<open>
  C4, amended. The number of mines is \<open>int(mines_density * columns * rows)\<close> with the two
  products rounded to doubles, as the program computes it. With positive dimensions
  and a density that is not negative, every board the construction returns has a
  finite mine set of exactly the floor of that product (a set, so its squares are
  pairwise distinct), all of them inside \<open>[0, columns) \<times> [0, rows)\<close>; and the
  construction returns a board for some draws whenever that number is at most the
  number of squares.
\<close>

theorem mines_placed:
  assumes "0 < c" and "0 < r" and "0 \<le> m"
  shows "(\<forall>rs b. init_float c r (Fin m e) rs = Some (Inr b) \<longrightarrow>
            (\<exists>M E. density_product (Fin m e) c r = Inr (Fin M E)
               \<and> finite (mines b)
               \<and> int (card (mines b)) = \<lfloor>fval M E\<rfloor>
               \<and> mines b \<subseteq> {0..<c} \<times> {0..<r}))
         \<and> (\<forall>n. mines_count (Fin m e) c r = Inr n \<and> n \<le> c * r \<longrightarrow>
               (\<exists>rs b. init_float c r (Fin m e) rs = Some (Inr b)))"
proof -
  have "\<exists>M E. density_product (Fin m e) c r = Inr (Fin M E)
               \<and> finite (mines b)
               \<and> int (card (mines b)) = \<lfloor>fval M E\<rfloor>
               \<and> mines b \<subseteq> {0..<c} \<times> {0..<r}"
    if i: "init_float c r (Fin m e) rs = Some (Inr b)" for rs b
  proof -
    from init_float_Inr[OF i] obtain n where
      n: "mines_count (Fin m e) c r = Inr n" and
      p: "place_mines c r n {} rs = Some (Inr (mines b))" by blast
    from mines_count_floor[OF n] assms obtain M E where
      d: "density_product (Fin m e) c r = Inr (Fin M E)" and M: "0 \<le> M"
      and f: "n = \<lfloor>fval M E\<rfloor>" by auto
    have "0 \<le> fval M E" using M by (simp add: fval_def)
    then have "0 \<le> n" unfolding f by simp
    with place_mines_empty_Inr[OF p] f
    have "finite (mines b) \<and> int (card (mines b)) = \<lfloor>fval M E\<rfloor>
          \<and> mines b \<subseteq> {0..<c} \<times> {0..<r}"
      by (simp add: board_xys_Times)
    with d show ?thesis by blast
  qed
  moreover have "\<exists>rs b. init_float c r (Fin m e) rs = Some (Inr b)"
    if "mines_count (Fin m e) c r = Inr n \<and> n \<le> c * r" for n
    using init_float_returns[of "Fin m e" c r n] that assms by blast
  ultimately show ?thesis by blast
qed

theorem mines_placed_witness:
  "init_float 10 1 (Fin 5404319552844595 (- 54)) [0, 0, 1, 0, 2, 0] = Some (Inr board_10x1)
   \<and> density_product (Fin 5404319552844595 (- 54)) 10 1 = Inr (Fin 6755399441055744 (- 51))
   \<and> card (mines board_10x1) = 3
   \<and> mines board_10x1 \<subseteq> {0..<10} \<times> {0..<1}"
proof -
  have "0 < (10 :: int)" "0 < (1 :: int)" "0 \<le> (5404319552844595 :: int)" by simp_all
  from mines_placed[OF this, of "- 54"]
  have "\<forall>rs b. init_float 10 1 (Fin 5404319552844595 (- 54)) rs = Some (Inr b) \<longrightarrow>
            (\<exists>M E. density_product (Fin 5404319552844595 (- 54)) 10 1 = Inr (Fin M E)
               \<and> finite (mines b)
               \<and> int (card (mines b)) = \<lfloor>fval M E\<rfloor>
               \<and> mines b \<subseteq> {0..<10} \<times> {0..<1})"
    by (rule conjunct1)
  with init_float_10x1
  obtain M E where
    d: "density_product (Fin 5404319552844595 (- 54)) 10 1 = Inr (Fin M E)" and
    c: "int (card (mines board_10x1)) = \<lfloor>fval M E\<rfloor>" and
    s: "mines board_10x1 \<subseteq> {0..<10} \<times> {0..<1}"
    by blast
  from d product_03 have "M = 6755399441055744" "E = - 51" by simp_all
  with c have "int (card (mines board_10x1)) = \<lfloor>fval 6755399441055744 (- 51)\<rfloor>" by simp
  also have "\<dots> = 3" by (simp add: fval_def)
  finally have "card (mines board_10x1) = 3" by simp
  with init_float_10x1 product_03 s show ?thesis by blast
qed

text \<open>
  C7. Construction checks neither the dimensions nor the density. With one column,
  one row and density 1 it returns the board whose only square is a mine; with no
  column at all it returns the board without a square.
\<close>

theorem invalid_configuration_accepted:
  "\<not> fval 1 0 < 1 \<and> init_float 1 1 (Fin 1 0) [0, 0] = Some (Inr board_1x1)
   \<and> mines board_1x1 = {(0, 0)}
   \<and> (0 :: int) \<le> 0 \<and> init_float 0 3 (Fin 1 (- 1)) [] = Some (Inr board_0x3)
   \<and> xys board_0x3 = {}"
proof -
  have "xys board_0x3 = {}" by (simp add: board_0x3_def board_xys_def)
  moreover have "mines board_1x1 = {(0, 0)}" by (simp add: board_1x1_def)
  moreover have "\<not> fval 1 0 < 1" by (simp add: fval_def)
  ultimately show ?thesis using init_float_1x1 init_float_0x3 by simp
qed

text \<open>
  C7, amended. Construction has no error of its own for its configuration. It raises
  what the arithmetic of the number of mines raises, \<open>ValueError\<close> for a product
  that is not a number and \<open>OverflowError\<close> for an infinite product or a dimension
  too large for a double; and it raises the \<open>ValueError\<close> of the random draw when the
  number of mines to place is positive and the number of columns or of rows is not.
  In every other case it raises nothing: when the number of mines to place is not
  positive it returns a board without mines, whatever the dimensions and the density,
  and when that number exceeds the number of squares of a board with positive
  dimensions it does not return.
\<close>

theorem construction_errors:
  "(mines_count d c r = Inl e \<longrightarrow>
      init_float c r d rs = Some (Inl e) \<and> (e = ValueError \<or> e = OverflowError))
   \<and> (mines_count d c r = Inr n \<and> 0 < n \<and> c \<le> 0 \<longrightarrow>
        init_float c r d rs = Some (Inl ValueError))
   \<and> (mines_count d c r = Inr n \<and> 0 < n \<and> 0 < c \<and> r \<le> 0 \<and> rs \<noteq> [] \<longrightarrow>
        init_float c r d rs = Some (Inl ValueError))
   \<and> (mines_count d c r = Inr n \<and> n \<le> 0 \<longrightarrow>
        init_float c r d rs =
          Some (Inr \<lparr>columns = c, rows = r, xys = board_xys c r,
                     neighbours = board_neighbours (board_xys c r),
                     mines = {}, empty_remaining = c * r - n,
                     opened = {}, flagged = {}, mines_near = Map.empty\<rparr>))
   \<and> (mines_count d c r = Inr n \<and> 0 < c \<and> 0 < r \<and> c * r < n \<longrightarrow>
        init_float c r d rs = None)
   \<and> (init_float c r d rs = Some (Inl e) \<longrightarrow>
        mines_count d c r = Inl e \<or>
        (e = ValueError \<and> (\<exists>k. mines_count d c r = Inr k \<and> 0 < k) \<and> (c \<le> 0 \<or> r \<le> 0)))"
proof -
  have 1: "mines_count d c r = Inl e \<longrightarrow>
      init_float c r d rs = Some (Inl e) \<and> (e = ValueError \<or> e = OverflowError)"
    using init_float_error mines_count_error by blast
  have 2: "mines_count d c r = Inr n \<and> 0 < n \<and> c \<le> 0 \<longrightarrow>
        init_float c r d rs = Some (Inl ValueError)"
    using init_float_columns_error by blast
  have 3: "mines_count d c r = Inr n \<and> 0 < n \<and> 0 < c \<and> r \<le> 0 \<and> rs \<noteq> [] \<longrightarrow>
        init_float c r d rs = Some (Inl ValueError)"
    using init_float_rows_error by blast
  have 4: "mines_count d c r = Inr n \<and> n \<le> 0 \<longrightarrow>
        init_float c r d rs =
          Some (Inr \<lparr>columns = c, rows = r, xys = board_xys c r,
                     neighbours = board_neighbours (board_xys c r),
                     mines = {}, empty_remaining = c * r - n,
                     opened = {}, flagged = {}, mines_near = Map.empty\<rparr>)"
    using init_float_no_mines by blast
  have 5: "mines_count d c r = Inr n \<and> 0 < c \<and> 0 < r \<and> c * r < n \<longrightarrow>
        init_float c r d rs = None"
    using init_float_too_many by blast
  have 6: "init_float c r d rs = Some (Inl e) \<longrightarrow>
        mines_count d c r = Inl e \<or>
        (e = ValueError \<and> (\<exists>k. mines_count d c r = Inr k \<and> 0 < k) \<and> (c \<le> 0 \<or> r \<le> 0))"
    using init_float_Inl by blast
  from 1 2 3 4 5 6 show ?thesis by (intro conjI)
qed

theorem construction_errors_witness:
  "mines_count NaN 3 3 = Inl ValueError \<and> init_float 3 3 NaN [] = Some (Inl ValueError)
   \<and> mines_count PInf 3 3 = Inl OverflowError \<and> init_float 3 3 PInf [] = Some (Inl OverflowError)
   \<and> mines_count (Fin 1 (- 1)) (- 2) (- 2) = Inr 2
   \<and> init_float (- 2) (- 2) (Fin 1 (- 1)) [] = Some (Inl ValueError)
   \<and> mines_count (Fin (- 1) (- 1)) 2 (- 2) = Inr 2
   \<and> init_float 2 (- 2) (Fin (- 1) (- 1)) [5] = Some (Inl ValueError)
   \<and> mines_count (Fin (- 1) (- 1)) 2 1 = Inr (- 1)
   \<and> init_float 2 1 (Fin (- 1) (- 1)) [] =
        Some (Inr \<lparr>columns = 2, rows = 1, xys = board_xys 2 1,
                   neighbours = board_neighbours (board_xys 2 1),
                   mines = {}, empty_remaining = 3,
                   opened = {}, flagged = {}, mines_near = Map.empty\<rparr>)
   \<and> mines_count (Fin 2 0) 1 1 = Inr 2 \<and> init_float 1 1 (Fin 2 0) [0, 0, 0, 0] = None"
proof -
  from construction_errors[of NaN 3 3 ValueError "[]"] count_nan
  have 1: "init_float 3 3 NaN [] = Some (Inl ValueError)" by blast
  from construction_errors[of PInf 3 3 OverflowError "[]"] count_inf
  have 2: "init_float 3 3 PInf [] = Some (Inl OverflowError)" by blast
  from construction_errors[of "Fin 1 (- 1)" "- 2" "- 2" _ "[]" 2] count_neg_2x2
  have 3: "init_float (- 2) (- 2) (Fin 1 (- 1)) [] = Some (Inl ValueError)" by simp
  from construction_errors[of "Fin (- 1) (- 1)" 2 "- 2" _ "[5]" 2] count_rows_neg
  have 4: "init_float 2 (- 2) (Fin (- 1) (- 1)) [5] = Some (Inl ValueError)" by simp
  from construction_errors[of "Fin (- 1) (- 1)" 2 1 _ "[]" "- 1"] count_neg_density
  have 5: "init_float 2 1 (Fin (- 1) (- 1)) [] =
        Some (Inr \<lparr>columns = 2, rows = 1, xys = board_xys 2 1,
                   neighbours = board_neighbours (board_xys 2 1),
                   mines = {}, empty_remaining = 3,
                   opened = {}, flagged = {}, mines_near = Map.empty\<rparr>)" by simp
  from construction_errors[of "Fin 2 0" 1 1 _ "[0, 0, 0, 0]" 2] count_two
  have 6: "init_float 1 1 (Fin 2 0) [0, 0, 0, 0] = None" by simp
  from count_nan count_inf count_neg_2x2 count_rows_neg count_neg_density count_two
    1 2 3 4 5 6 show ?thesis by (intro conjI)
qed

text \<open>
  C8. No operation checks its pair against the board. Flagging a pair outside the
  board returns without an error and puts the pair into \<open>flagged\<close>; opening it a
  second time returns without an error; asking whether it is opened answers.
\<close>

theorem outside_silently_accepted:
  "init_float 2 1 (Fin 1 (- 1)) [1, 0] = Some (Inr demo_board)
   \<and> (5, 5) \<notin> xys demo_board
   \<and> step demo_board (Flag (5, 5)) = (demo_board\<lparr>flagged := {(5, 5)}\<rparr>, Inr None)
   \<and> snd (open_cell (fst (open_cell demo_board (5, 5))) (5, 5)) = Inr None
   \<and> \<not> is_opened demo_board (5, 5)"
proof -
  have 1: "(5, 5) \<notin> xys demo_board" by (simp add: demo_xys)
  have 2: "step demo_board (Flag (5, 5)) = (demo_board\<lparr>flagged := {(5, 5)}\<rparr>, Inr None)"
    by (simp add: flag_def demo_state)
  have "(5, 5) \<in> opened (fst (open_cell demo_board (5, 5)))"
    by (rule open_cell_opens)
  then have 3: "snd (open_cell (fst (open_cell demo_board (5, 5))) (5, 5)) = Inr None"
    by (simp add: open_cell_opened)
  have 4: "\<not> is_opened demo_board (5, 5)" by (simp add: is_opened_def demo_state)
  from init_float_demo 1 2 3 4 show ?thesis by blast
qed

text \<open>
  C8, amended. At any board of a game and for a pair outside the board: \<open>open\<close>
  raises \<open>KeyError\<close> when the pair is not in \<open>opened\<close> and returns silently, changing
  nothing, when it is; \<open>flag\<close> puts the pair into \<open>flagged\<close> without an error; the
  read of \<open>mines_near\<close> raises \<open>KeyError\<close>.
\<close>

theorem outside_errors:
  assumes "init_float c r d rs = Some (Inr b0)" and "xy \<notin> xys (run b0 ps)"
  shows "(xy \<notin> opened (run b0 ps) \<longrightarrow> snd (open_cell (run b0 ps) xy) = Inl KeyError)
         \<and> (xy \<in> opened (run b0 ps) \<longrightarrow> open_cell (run b0 ps) xy = (run b0 ps, Inr None))
         \<and> step (run b0 ps) (Flag xy) =
             ((run b0 ps)\<lparr>flagged := insert xy (flagged (run b0 ps))\<rparr>, Inr None)
         \<and> mines_near_of (run b0 ps) xy = Inl KeyError"
proof -
  let ?b = "run b0 ps"
  have ok: "board_ok ?b" by (rule init_float_playing(1)[OF assms(1)])
  note out = outside_board[OF ok assms(2)]
  have 1: "xy \<notin> opened ?b \<longrightarrow> snd (open_cell ?b xy) = Inl KeyError"
    using out by (simp add: open_cell_no_key)
  have 2: "xy \<in> opened ?b \<longrightarrow> open_cell ?b xy = (?b, Inr None)"
    by (simp add: open_cell_opened)
  have 3: "step ?b (Flag xy) = (?b\<lparr>flagged := insert xy (flagged ?b)\<rparr>, Inr None)"
    by (simp add: flag_def)
  have "mines_near ?b xy = None"
    using init_float_playing(3)[OF assms(1), of ps] assms(2) by blast
  then have 4: "mines_near_of ?b xy = Inl KeyError" by (simp add: mines_near_of_def)
  from 1 2 3 4 show ?thesis by (intro conjI)
qed

theorem outside_errors_witness:
  "init_float 2 1 (Fin 1 (- 1)) [1, 0] = Some (Inr demo_board)
   \<and> (0, 7) \<notin> xys (run demo_board [Open (1, 0), Open (3, 3)])
   \<and> (0, 7) \<notin> opened (run demo_board [Open (1, 0), Open (3, 3)])
   \<and> snd (open_cell (run demo_board [Open (1, 0), Open (3, 3)]) (0, 7)) = Inl KeyError
   \<and> (3, 3) \<notin> xys (run demo_board [Open (1, 0), Open (3, 3)])
   \<and> (3, 3) \<in> opened (run demo_board [Open (1, 0), Open (3, 3)])
   \<and> snd (open_cell (run demo_board [Open (1, 0), Open (3, 3)]) (3, 3)) = Inr None
   \<and> mines_near_of (run demo_board [Open (1, 0), Open (3, 3)]) (0, 7) = Inl KeyError"
proof -
  let ?b = "run demo_board [Open (1, 0), Open (3, 3)]"
  have x: "(0, 7) \<notin> xys ?b" "(3, 3) \<notin> xys ?b" unfolding run_static by (simp_all add: demo_xys)
  have "opened ?b = {(3, 3), (1, 0)}"
    by (simp add: demo_board_def open_cell_def flag_def board_neighbours_def mem_board_xys)
  then have o: "(0, 7) \<notin> opened ?b" "(3, 3) \<in> opened ?b" by simp_all
  note t = outside_errors[OF init_float_demo x(1)]
  note u = outside_errors[OF init_float_demo x(2)]
  from t o have 1: "snd (open_cell ?b (0, 7)) = Inl KeyError" by blast
  from t have 2: "mines_near_of ?b (0, 7) = Inl KeyError" by blast
  from u o have 3: "snd (open_cell ?b (3, 3)) = Inr None" by simp
  from init_float_demo x o 1 2 3 show ?thesis by blast
qed



end
